theory Spec2Isabelle
  imports
    Main
    "HOL-Library.Char_ord"
    "HOL-Library.List_Lexorder"
    "HOL-Library.Option_ord"
begin

section \<open>JavaScript strings and values\<close>

text \<open>
  The data-management layer of \<^verbatim>\<open>index.js\<close> (lines 36 to 173) is embedded
  here: the two tables with their constraints, the map and account repositories, the
  credential parser and the bulk importer.

  A JavaScript string is a \<^typ>\<open>string\<close>; a \<^typ>\<open>char\<close> stands for one
  UTF-16 code unit below 256, so the strings covered are those of the Latin-1 range.
  On them the code-unit order, the order of the UTF-8 encodings compared by the store's
  BINARY collation and the order of \<^typ>\<open>char\<close> coincide. The store keeps a string
  as its UTF-8 bytes (\<open>utf8\<close> below: one byte below 128, two bytes from 128 on), and its
  NOCASE collation works on these bytes: it folds the 26 ASCII capitals only and stops
  comparing at the first NUL byte.

  A value that is a string or \<^verbatim>\<open>null\<close>/\<^verbatim>\<open>undefined\<close> is a
  \<^typ>\<open>string option\<close>, with \<^term>\<open>None\<close> for both; a nullable TEXT column is
  the same type, \<^term>\<open>None\<close> being SQL NULL.
\<close>

definition isWhiteSpace :: "char \<Rightarrow> bool" where
  \<comment> \<open>the code units below 256 that \<^verbatim>\<open>String.prototype.trim\<close> strips:
      TAB, LF, VT, FF, CR, SP, NBSP\<close>
  "isWhiteSpace c \<longleftrightarrow>
     c \<in> set [CHR 0x09, CHR 0x0A, CHR 0x0B, CHR 0x0C, CHR 0x0D, CHR 0x20, CHR 0xA0]"

definition trim :: "string \<Rightarrow> string" where
  "trim s = rev (dropWhile isWhiteSpace (rev (dropWhile isWhiteSpace s)))"

fun indexOf :: "string \<Rightarrow> char \<Rightarrow> int" where
  "indexOf [] c = - 1"
| "indexOf (x # xs) c =
     (if x = c then 0
      else (let i = indexOf xs c in if i < 0 then - 1 else i + 1))"

definition js_index :: "nat \<Rightarrow> int \<Rightarrow> nat" where
  \<comment> \<open>how \<^verbatim>\<open>slice\<close> reads an index: negative counts from the end, all clamped\<close>
  "js_index len i = (if i < 0 then nat (max 0 (int len + i)) else min (nat i) len)"

definition slice :: "string \<Rightarrow> int \<Rightarrow> int \<Rightarrow> string" where
  \<comment> \<open>\<^verbatim>\<open>s.slice(b, e)\<close>\<close>
  "slice s b e =
     (let from = js_index (length s) b; to = js_index (length s) e
      in take (to - from) (drop from s))"

definition slice_from :: "string \<Rightarrow> int \<Rightarrow> string" where
  \<comment> \<open>\<^verbatim>\<open>s.slice(b)\<close>\<close>
  "slice_from s b = drop (js_index (length s) b) s"

fun startsWith :: "string \<Rightarrow> string \<Rightarrow> bool" where
  "startsWith s [] = True"
| "startsWith [] (p # ps) = False"
| "startsWith (c # cs) (p # ps) = (c = p \<and> startsWith cs ps)"

fun js_includes :: "string \<Rightarrow> string \<Rightarrow> bool" where
  \<comment> \<open>\<^verbatim>\<open>s.includes(p)\<close>\<close>
  "js_includes [] p = startsWith [] p"
| "js_includes (c # cs) p = (startsWith (c # cs) p \<or> js_includes cs p)"

fun split_lines :: "string \<Rightarrow> string list" where
  \<comment> \<open>\<^verbatim>\<open>s.split(/\r?\n/)\<close>: a separator is LF, or CR immediately followed by LF\<close>
  "split_lines [] = [[]]"
| "split_lines (c # cs) =
     (if c = CHR 0x0A then [] # split_lines cs
      else if c = CHR 0x0D \<and> cs \<noteq> [] \<and> hd cs = CHR 0x0A then [] # split_lines (tl cs)
      else (case split_lines cs of [] \<Rightarrow> [[c]] | l # ls \<Rightarrow> (c # l) # ls))"

definition or_empty :: "string option \<Rightarrow> string" where
  \<comment> \<open>\<^verbatim>\<open>String(x || '')\<close>\<close>
  "or_empty x = (case x of None \<Rightarrow> [] | Some s \<Rightarrow> s)"

definition js_or :: "string option \<Rightarrow> string option \<Rightarrow> string option" where
  \<comment> \<open>\<^verbatim>\<open>a || b\<close>: \<^verbatim>\<open>null\<close>, \<^verbatim>\<open>undefined\<close> and the empty
      string are falsy\<close>
  "js_or a b = (case a of None \<Rightarrow> b | Some s \<Rightarrow> if s = [] then b else a)"

datatype js_error =
    Error (message: string)          \<comment> \<open>\<^verbatim>\<open>throw new Error(msg)\<close>\<close>
  | SqliteError (message: string)    \<comment> \<open>raised by the store on a failed statement\<close>


section \<open>The store\<close>

text \<open>
  The tables as lines 41 to 67 declare them, rows in insertion order. The column
  \<^verbatim>\<open>created_at\<close> is left out: no operation below reads it. Row ids are
  unbounded integers (the store's limit of \<open>2^63 - 1\<close> is not modelled).
  \<^verbatim>\<open>foreign_keys\<close> is ON (line 38).
\<close>

record map_row =
  m_id :: int
  m_name :: string               \<comment> \<open>\<^verbatim>\<open>TEXT NOT NULL UNIQUE COLLATE NOCASE\<close>\<close>

record account_row =
  a_id :: int
  a_name :: "string option"      \<comment> \<open>legacy\<close>
  a_map_id :: int                \<comment> \<open>\<^verbatim>\<open>NOT NULL\<close>, references \<^verbatim>\<open>maps(id)\<close>\<close>
  a_data :: "string option"      \<comment> \<open>legacy\<close>
  a_login :: "string option"
  a_password :: "string option"
  a_label :: "string option"

record database =
  maps :: "map_row list"
  accounts :: "account_row list"
  maps_seq :: int                \<comment> \<open>AUTOINCREMENT: the largest id ever given to a map\<close>
  accounts_seq :: int

record run_result =
  changes :: nat
  lastInsertRowid :: int

definition empty_db :: database where
  "empty_db = \<lparr>maps = [], accounts = [], maps_seq = 0, accounts_seq = 0\<rparr>"

definition next_rowid :: "int \<Rightarrow> int list \<Rightarrow> int" where
  \<comment> \<open>AUTOINCREMENT: one more than the largest id that ever existed in the table\<close>
  "next_rowid seq ids = fold max ids seq + 1"

definition ascii_lower :: "char \<Rightarrow> char" where
  \<comment> \<open>the folding of the NOCASE collation: the 26 ASCII capitals, nothing else\<close>
  "ascii_lower c =
     (case map_of (zip ''ABCDEFGHIJKLMNOPQRSTUVWXYZ'' ''abcdefghijklmnopqrstuvwxyz'') c of
        None \<Rightarrow> c
      | Some d \<Rightarrow> d)"

definition nocase :: "string \<Rightarrow> string" where
  "nocase s = map ascii_lower s"

definition utf8_char :: "char \<Rightarrow> string" where
  \<comment> \<open>the UTF-8 bytes of a code unit below 256\<close>
  "utf8_char c =
     (if c < CHR 0x80 then [c]
      else if c < CHR 0xC0 then [CHR 0xC2, c]
      else [CHR 0xC3, char_of (of_char c - (64::nat))])"

definition utf8 :: "string \<Rightarrow> string" where
  "utf8 s = concat (map utf8_char s)"

fun strnicmp_zero :: "string \<Rightarrow> string \<Rightarrow> bool" where
  \<comment> \<open>whether the store's \<^verbatim>\<open>sqlite3_strnicmp(a, b, N)\<close> is 0, for \<open>N\<close> the smaller
      of the two byte counts: its loop
      \<^verbatim>\<open>while( N-- > 0 && *a!=0 && UpperToLower[*a]==UpperToLower[*b] ){ a++; b++; }\<close>
      ends at the first NUL of \<open>a\<close>, and the result is then
      \<^verbatim>\<open>N<0 ? 0 : UpperToLower[*a] - UpperToLower[*b]\<close>\<close>
  "strnicmp_zero [] b = True"
| "strnicmp_zero (x # a) [] = True"
| "strnicmp_zero (x # a) (y # b) =
     (if x \<noteq> CHR 0x00 \<and> ascii_lower x = ascii_lower y then strnicmp_zero a b
      else ascii_lower x = ascii_lower y)"

definition nocase_eq :: "string \<Rightarrow> string \<Rightarrow> bool" where
  \<comment> \<open>two strings are equal under the NOCASE collation: \<^verbatim>\<open>sqlite3_strnicmp\<close> over
      the shorter byte count is 0 and the byte counts are equal\<close>
  "nocase_eq s t \<longleftrightarrow> strnicmp_zero (utf8 s) (utf8 t) \<and> length (utf8 s) = length (utf8 t)"

definition insert_map :: "database \<Rightarrow> string \<Rightarrow> js_error + (database \<times> run_result)" where
  \<comment> \<open>\<^verbatim>\<open>INSERT INTO maps (name) VALUES (?)\<close>\<close>
  "insert_map db n =
     (if \<exists>m \<in> set (maps db). nocase_eq (m_name m) n
      then Inl (SqliteError ''UNIQUE constraint failed: maps.name'')
      else (let i = next_rowid (maps_seq db) (map m_id (maps db))
            in Inr (db\<lparr>maps := maps db @ [\<lparr>m_id = i, m_name = n\<rparr>], maps_seq := i\<rparr>,
                    \<lparr>changes = 1, lastInsertRowid = i\<rparr>)))"

definition insert_account ::
  "database \<Rightarrow> string option \<Rightarrow> string option \<Rightarrow> string option \<Rightarrow> int \<Rightarrow>
     string option \<Rightarrow> string option \<Rightarrow> js_error + (database \<times> run_result)" where
  \<comment> \<open>\<^verbatim>\<open>INSERT INTO accounts (login, password, label, map_id, name, data)
       VALUES (?, ?, ?, ?, ?, ?)\<close>.
      The unique index \<^verbatim>\<open>idx_accounts_login_map\<close> is on \<^verbatim>\<open>(login, map_id)
      WHERE login IS NOT NULL\<close>; \<^verbatim>\<open>login\<close> was added as plain \<^verbatim>\<open>TEXT\<close>
      (line 64), so the index compares it with the BINARY collation. It is checked as
      the row is written, the foreign key when the statement ends.\<close>
  "insert_account db lg pw lb mid nm dt =
     (if lg \<noteq> None \<and> (\<exists>a \<in> set (accounts db). a_login a = lg \<and> a_map_id a = mid)
      then Inl (SqliteError ''UNIQUE constraint failed: accounts.login, accounts.map_id'')
      else if \<not> (\<exists>m \<in> set (maps db). m_id m = mid)
      then Inl (SqliteError ''FOREIGN KEY constraint failed'')
      else (let i = next_rowid (accounts_seq db) (map a_id (accounts db))
            in Inr (db\<lparr>accounts := accounts db @
                         [\<lparr>a_id = i, a_name = nm, a_map_id = mid, a_data = dt,
                           a_login = lg, a_password = pw, a_label = lb\<rparr>],
                       accounts_seq := i\<rparr>,
                    \<lparr>changes = 1, lastInsertRowid = i\<rparr>)))"

definition delete_map :: "database \<Rightarrow> int \<Rightarrow> database \<times> nat" where
  \<comment> \<open>\<^verbatim>\<open>DELETE FROM maps WHERE id = ?\<close>, with \<^verbatim>\<open>ON DELETE CASCADE\<close> on
      \<^verbatim>\<open>accounts.map_id\<close>: the accounts of every deleted map go with it. The
      number returned counts the deleted map rows.\<close>
  "delete_map db i =
     (let gone = filter (\<lambda>m. m_id m = i) (maps db)
      in (db\<lparr>maps := filter (\<lambda>m. m_id m \<noteq> i) (maps db),
             accounts := (if gone = [] then accounts db
                          else filter (\<lambda>a. a_map_id a \<noteq> i) (accounts db))\<rparr>,
          length gone))"


section \<open>Map repository\<close>

definition createMap :: "database \<Rightarrow> string \<Rightarrow> js_error + (database \<times> run_result)" where
  "createMap db name = insert_map db (trim name)"

definition deleteMapById :: "database \<Rightarrow> int \<Rightarrow> database \<times> nat" where
  "deleteMapById db i = delete_map db i"

definition getMapById :: "database \<Rightarrow> int \<Rightarrow> map_row option" where
  "getMapById db i = find (\<lambda>m. m_id m = i) (maps db)"

definition getMapByName :: "database \<Rightarrow> string \<Rightarrow> map_row option" where
  "getMapByName db name = find (\<lambda>m. nocase_eq (m_name m) (trim name)) (maps db)"


section \<open>Account repository\<close>

definition parsePair :: "string option \<Rightarrow> js_error + (string \<times> string)" where
  \<comment> \<open>the object \<^verbatim>\<open>{ login, password }\<close> is the pair \<open>(login, password)\<close>\<close>
  "parsePair pair =
     (let s = trim (or_empty pair);
          idx = indexOf s (CHR '':'')
      in if idx \<le> 0 then Inl (Error ''Use format USERNAME_OR_EMAIL:PASSWORD'')
         else (let login = trim (slice s 0 idx);
                   password = trim (slice_from s (idx + 1))
               in if login = [] \<or> password = []
                  then Inl (Error ''Both login and password are required'')
                  else Inr (login, password)))"

definition addAccountToMap ::
  "database \<Rightarrow> int \<Rightarrow> string option \<Rightarrow> string option \<Rightarrow> string option \<Rightarrow>
     js_error + (database \<times> run_result)" where
  \<comment> \<open>\<^verbatim>\<open>stmt.run(login, password, label || null, mapId, label || login, null)\<close>\<close>
  "addAccountToMap db mapId login password label =
     insert_account db login password (js_or label None) mapId (js_or label login) None"

definition addAccountPairToMap ::
  "database \<Rightarrow> int \<Rightarrow> string option \<Rightarrow> string option \<Rightarrow>
     js_error + (database \<times> run_result)" where
  "addAccountPairToMap db mapId pair label =
     (case parsePair pair of
        Inl e \<Rightarrow> Inl e
      | Inr (login, password) \<Rightarrow> addAccountToMap db mapId (Some login) (Some password) label)"

record line_error =
  line :: string
  error :: string

record bulk_results =
  added :: nat
  duplicates :: nat
  errors :: "line_error list"

definition bulk_line :: "int \<Rightarrow> string \<Rightarrow> database \<times> bulk_results \<Rightarrow> database \<times> bulk_results" where
  \<comment> \<open>one turn of the \<^verbatim>\<open>for\<close> loop: the \<^verbatim>\<open>try\<close> body, then the
      \<^verbatim>\<open>catch\<close>. A failed statement leaves the store as it was.\<close>
  "bulk_line mapId l st =
     (let db = fst st; results = snd st in
      case (case parsePair (Some l) of
              Inl e \<Rightarrow> Inl e
            | Inr (login, password) \<Rightarrow>
                addAccountToMap db mapId (Some login) (Some password) None) of
        Inr (db', r) \<Rightarrow> (db', results\<lparr>added := added results + 1\<rparr>)
      | Inl e \<Rightarrow>
          if js_includes (message e) ''UNIQUE'' \<or> js_includes (message e) ''constraint''
          then (db, results\<lparr>duplicates := duplicates results + 1\<rparr>)
          else (db, results\<lparr>errors := errors results @ [\<lparr>line = l, error = message e\<rparr>]\<rparr>))"

definition bulkAddPairs :: "database \<Rightarrow> int \<Rightarrow> string option \<Rightarrow> database \<times> bulk_results" where
  \<comment> \<open>The transaction wraps the loop; every exception is caught inside it, so it
      always commits and the store after the call is the store after the last line.\<close>
  "bulkAddPairs db mapId pairsText =
     (let lines = filter (\<lambda>l. l \<noteq> []) (map trim (split_lines (or_empty pairsText)))
      in fold (bulk_line mapId) lines (db, \<lparr>added = 0, duplicates = 0, errors = []\<rparr>))"

record account_listing =
  l_id :: int
  l_label :: "string option"
  l_login :: "string option"
  l_password :: "string option"

record account_detail =
  d_id :: int
  d_label :: "string option"
  d_login :: "string option"
  d_password :: "string option"
  d_map_id :: int

definition coalesce :: "string option list \<Rightarrow> string option" where
  \<comment> \<open>SQL \<^verbatim>\<open>COALESCE\<close>: the first argument that is not NULL\<close>
  "coalesce xs = (case filter (\<lambda>x. x \<noteq> None) xs of [] \<Rightarrow> None | x # _ \<Rightarrow> x)"

definition listing_of :: "account_row \<Rightarrow> account_listing" where
  \<comment> \<open>the columns that \<^verbatim>\<open>listAccountsByMapId\<close> selects from a row\<close>
  "listing_of a =
     \<lparr>l_id = a_id a, l_label = coalesce [a_label a, a_login a, a_name a],
      l_login = a_login a, l_password = a_password a\<rparr>"

definition limit_of :: "int option \<Rightarrow> int" where
  \<comment> \<open>the parameter \<^verbatim>\<open>limit = 250\<close>\<close>
  "limit_of limit = (case limit of None \<Rightarrow> 250 | Some k \<Rightarrow> k)"

definition listAccountsByMapId :: "database \<Rightarrow> int \<Rightarrow> int option \<Rightarrow> account_listing list" where
  \<comment> \<open>\<^verbatim>\<open>ORDER BY label\<close> names the output column
      \<^verbatim>\<open>COALESCE(label, login, name) AS label\<close>. That expression is not a column
      and carries no \<^verbatim>\<open>COLLATE\<close>, so the store sorts it with the BINARY
      collation, NULL first; here rows with equal keys stay in insertion order.
      \<^term>\<open>None\<close> as limit is the omitted argument; a negative
      \<^verbatim>\<open>LIMIT\<close> is no limit.\<close>
  "listAccountsByMapId db mapId limit =
     (let rows = filter (\<lambda>a. a_map_id a = mapId) (accounts db);
          ordered = sort_key l_label (map listing_of rows);
          n = limit_of limit
      in if n < 0 then ordered else take (nat n) ordered)"

definition getAccountById :: "database \<Rightarrow> int \<Rightarrow> account_detail option" where
  "getAccountById db i =
     map_option (\<lambda>a. \<lparr>d_id = a_id a,
                        d_label = coalesce [a_label a, a_login a, a_name a],
                        d_login = a_login a,
                        d_password = a_password a,
                        d_map_id = a_map_id a\<rparr>)
       (find (\<lambda>a. a_id a = i) (accounts db))"


section \<open>Constraints of the schema\<close>

definition integrity :: "database \<Rightarrow> bool" where
  \<comment> \<open>what the declared constraints give: the two primary keys, map names that differ
      pairwise even with the case of ASCII letters folded (a consequence of the UNIQUE
      constraint under NOCASE), the partial unique index on \<^verbatim>\<open>(login, map_id)\<close> and
      the foreign key of \<^verbatim>\<open>accounts.map_id\<close>\<close>
  "integrity db \<longleftrightarrow>
     distinct (map m_id (maps db)) \<and>
     distinct (map a_id (accounts db)) \<and>
     distinct (map (\<lambda>m. nocase (m_name m)) (maps db)) \<and>
     distinct (map (\<lambda>a. (a_login a, a_map_id a))
                 (filter (\<lambda>a. a_login a \<noteq> None) (accounts db))) \<and>
     (\<forall>a \<in> set (accounts db). \<exists>m \<in> set (maps db). m_id m = a_map_id a)"

definition synced :: "account_row \<Rightarrow> bool" where
  \<comment> \<open>the legacy columns of a row agree with its modern ones\<close>
  "synced row \<longleftrightarrow> a_name row = coalesce [a_label row, a_login row] \<and> a_data row = None"

definition no_results :: bulk_results where
  "no_results = \<lparr>added = 0, duplicates = 0, errors = []\<rparr>"


section \<open>Example stores\<close>

definition one_map_db :: database where
  \<comment> \<open>the store after \<^verbatim>\<open>createMap(' main ')\<close> on the empty store\<close>
  "one_map_db =
     \<lparr>maps = [\<lparr>m_id = 1, m_name = ''main''\<rparr>], accounts = [], maps_seq = 1, accounts_seq = 0\<rparr>"


definition bob_db :: database where
  "bob_db = one_map_db\<lparr>accounts :=
       [\<lparr>a_id = 1, a_name = Some ''bob'', a_map_id = 1, a_data = None,
         a_login = Some ''bob'', a_password = Some ''pw'', a_label = None\<rparr>],
     accounts_seq := 1\<rparr>"

definition bobby_db :: database where
  "bobby_db = one_map_db\<lparr>accounts :=
       [\<lparr>a_id = 1, a_name = Some ''Bobby'', a_map_id = 1, a_data = None,
         a_login = Some ''bob'', a_password = Some ''pw'', a_label = Some ''Bobby''\<rparr>],
     accounts_seq := 1\<rparr>"


definition nul_name_db :: database where
  \<comment> \<open>the store after \<^verbatim>\<open>createMap('a\0b')\<close> on the empty store\<close>
  "nul_name_db =
     \<lparr>maps = [\<lparr>m_id = 1, m_name = [CHR ''a'', CHR 0x00, CHR ''b'']\<rparr>], accounts = [],
      maps_seq = 1, accounts_seq = 0\<rparr>"

definition user_db :: database where
  \<comment> \<open>\<^const>\<open>one_map_db\<close> after \<^verbatim>\<open>addAccountPairToMap\<close> of \<open>user:pw\<close> into map 1\<close>
  "user_db = one_map_db\<lparr>accounts :=
       [\<lparr>a_id = 1, a_name = Some ''user'', a_map_id = 1, a_data = None,
         a_login = Some ''user'', a_password = Some ''pw'', a_label = None\<rparr>],
     accounts_seq := 1\<rparr>"

definition user_row :: account_row where
  "user_row = \<lparr>a_id = 1, a_name = Some ''user'', a_map_id = 1, a_data = None,
                a_login = Some ''user'', a_password = Some ''pw'', a_label = None\<rparr>"

definition two_map_db :: database where
  \<comment> \<open>two maps, the first one holding the account \<open>user\<close>\<close>
  "two_map_db =
     \<lparr>maps = [\<lparr>m_id = 1, m_name = ''main''\<rparr>, \<lparr>m_id = 2, m_name = ''other''\<rparr>],
      accounts = [user_row], maps_seq = 2, accounts_seq = 1\<rparr>"


definition shared_db :: database where
  \<comment> \<open>two maps; \<open>user\<close> and \<open>admin\<close> in map 1, \<open>user\<close> in map 2\<close>
  "shared_db =
     \<lparr>maps = [\<lparr>m_id = 1, m_name = ''main''\<rparr>, \<lparr>m_id = 2, m_name = ''other''\<rparr>],
      accounts =
        [user_row,
         \<lparr>a_id = 2, a_name = Some ''admin'', a_map_id = 1, a_data = None,
           a_login = Some ''admin'', a_password = Some ''root'', a_label = None\<rparr>,
         \<lparr>a_id = 3, a_name = Some ''user'', a_map_id = 2, a_data = None,
           a_login = Some ''user'', a_password = Some ''pw3'', a_label = None\<rparr>],
      maps_seq = 2, accounts_seq = 3\<rparr>"

definition shared_db_without_1 :: database where
  "shared_db_without_1 =
     \<lparr>maps = [\<lparr>m_id = 2, m_name = ''other''\<rparr>],
      accounts =
        [\<lparr>a_id = 3, a_name = Some ''user'', a_map_id = 2, a_data = None,
           a_login = Some ''user'', a_password = Some ''pw3'', a_label = None\<rparr>],
      maps_seq = 2, accounts_seq = 3\<rparr>"


definition blank_text :: string where
  \<comment> \<open>space, LF, TAB, CR LF, space, CR\<close>
  "blank_text = [CHR 0x20, CHR 0x0A, CHR 0x09, CHR 0x0D, CHR 0x0A, CHR 0x20, CHR 0x0D]"


definition four_lines :: string where
  \<comment> \<open>the lines \<open>a:1\<close>, \<open>a:1\<close>, \<open>b:2\<close>, \<open>malformed\<close>, joined by LF\<close>
  "four_lines =
     ''a:1'' @ [CHR 0x0A] @ ''a:1'' @ [CHR 0x0A] @ ''b:2'' @ [CHR 0x0A] @ ''malformed''"


definition mixed_case_db :: database where
  \<comment> \<open>\<^const>\<open>one_map_db\<close> after the bulk import of the lines \<open>b:1\<close> and \<open>C:2\<close> into map 1\<close>
  "mixed_case_db = one_map_db\<lparr>accounts :=
       [\<lparr>a_id = 1, a_name = Some ''b'', a_map_id = 1, a_data = None,
         a_login = Some ''b'', a_password = Some ''1'', a_label = None\<rparr>,
        \<lparr>a_id = 2, a_name = Some ''C'', a_map_id = 1, a_data = None,
         a_login = Some ''C'', a_password = Some ''2'', a_label = None\<rparr>],
     accounts_seq := 2\<rparr>"


section \<open>The credential parser\<close>

lemma indexOf_notin: "c \<notin> set s \<Longrightarrow> indexOf s c = - 1"
  by (induction s) auto

lemma indexOf_append: "c \<notin> set a \<Longrightarrow> indexOf (a @ c # b) c = int (length a)"
  by (induction a) (auto simp: Let_def)

lemma indexOf_split:
  assumes "0 \<le> indexOf s c"
  shows "\<exists>a b. s = a @ c # b \<and> c \<notin> set a \<and> indexOf s c = int (length a)"
proof -
  have "c \<in> set s" using assms indexOf_notin [of c s] by force
  then obtain a b where "s = a @ c # b" "c \<notin> set a"
    by (meson split_list_first)
  then show ?thesis using indexOf_append by blast
qed

lemma slice_prefix: "slice (a @ c # b) 0 (int (length a)) = a"
  by (simp add: slice_def js_index_def)

lemma slice_from_suffix: "slice_from (a @ c # b) (int (length a) + 1) = b"
proof -
  have "nat (int (length a) + 1) = Suc (length a)" by simp
  then show ?thesis by (simp add: slice_from_def js_index_def)
qed

lemma parsePair_iff:
  "parsePair (Some s) = Inr (l, p) \<longleftrightarrow>
     (\<exists>a b. trim s = a @ CHR '':'' # b \<and> CHR '':'' \<notin> set a \<and> a \<noteq> [] \<and>
            trim a \<noteq> [] \<and> trim b \<noteq> [] \<and> l = trim a \<and> p = trim b)"
  (is "?L \<longleftrightarrow> ?R")
proof
  assume R: ?L
  then have pos: "0 < indexOf (trim s) (CHR '':'')"
    by (auto simp: parsePair_def or_empty_def Let_def split: if_splits)
  then obtain a b where ab: "trim s = a @ CHR '':'' # b" "CHR '':'' \<notin> set a"
      "indexOf (trim s) (CHR '':'') = int (length a)"
    using indexOf_split [of "trim s" "CHR '':''"] by auto
  with pos have "a \<noteq> []" by auto
  moreover from R ab have "trim a \<noteq> [] \<and> trim b \<noteq> [] \<and> l = trim a \<and> p = trim b"
    by (auto simp: parsePair_def or_empty_def Let_def slice_prefix slice_from_suffix
        split: if_splits)
  ultimately show ?R using ab by blast
next
  assume ?R
  then obtain a b where ab: "trim s = a @ CHR '':'' # b" "CHR '':'' \<notin> set a" "a \<noteq> []"
     "trim a \<noteq> []" "trim b \<noteq> []" "l = trim a" "p = trim b" by blast
  have "indexOf (trim s) (CHR '':'') = int (length a)"
    using ab(1,2) by (simp add: indexOf_append)
  then show ?L
    using ab by (simp add: parsePair_def or_empty_def Let_def slice_prefix slice_from_suffix)
qed

lemma parsePair_fails_iff:
  "isl (parsePair (Some s)) \<longleftrightarrow>
     \<not> (\<exists>a b. trim s = a @ CHR '':'' # b \<and> CHR '':'' \<notin> set a \<and> a \<noteq> [] \<and>
              trim a \<noteq> [] \<and> trim b \<noteq> [])"
proof -
  have "(\<exists>l p. parsePair (Some s) = Inr (l, p)) \<longleftrightarrow>
        (\<exists>a b. trim s = a @ CHR '':'' # b \<and> CHR '':'' \<notin> set a \<and> a \<noteq> [] \<and>
               trim a \<noteq> [] \<and> trim b \<noteq> [])"
    unfolding parsePair_iff by blast
  moreover have "isl (parsePair (Some s)) \<longleftrightarrow> \<not> (\<exists>l p. parsePair (Some s) = Inr (l, p))"
    by (cases "parsePair (Some s)") auto
  ultimately show ?thesis by simp
qed

lemma parsePair_messages:
  "parsePair x = Inl e \<Longrightarrow>
     e = Error ''Use format USERNAME_OR_EMAIL:PASSWORD'' \<or>
     e = Error ''Both login and password are required''"
  by (auto simp: parsePair_def Let_def split: if_splits)

lemmas parsePair_eval =
  parsePair_def trim_def isWhiteSpace_def or_empty_def slice_def slice_from_def js_index_def

lemma parsePair_user_pass: "parsePair (Some ''user:pass'') = Inr (''user'', ''pass'')"
  by (simp add: parsePair_eval)

lemma parsePair_no_colon:
  "parsePair (Some ''user'') = Inl (Error ''Use format USERNAME_OR_EMAIL:PASSWORD'')"
  by (simp add: parsePair_eval)

lemma parsePair_colon_first:
  "parsePair (Some '':pass'') = Inl (Error ''Use format USERNAME_OR_EMAIL:PASSWORD'')"
  by (simp add: parsePair_eval)

lemma parsePair_no_password:
  "parsePair (Some ''user:'') = Inl (Error ''Both login and password are required'')"
  by (simp add: parsePair_eval)

text \<open>
  Claim C7. \<^const>\<open>parsePair\<close> trims its argument and splits it at the first colon. It
  returns the trimmed left and right parts exactly when that colon has at least one
  character before it and both parts are non-empty after trimming; in every other case
  it fails. So \<open>user:pass\<close> gives \<open>(user, pass)\<close>, and \<open>user\<close> (no colon),
  \<open>:pass\<close> (colon first) and \<open>user:\<close> (no password) each fail with the
  parser's own error.
\<close>

theorem parsePair_first_colon:
  "(parsePair (Some s) = Inr (l, p) \<longleftrightarrow>
      (\<exists>a b. trim s = a @ CHR '':'' # b \<and> CHR '':'' \<notin> set a \<and> a \<noteq> [] \<and>
             trim a \<noteq> [] \<and> trim b \<noteq> [] \<and> l = trim a \<and> p = trim b))
   \<and> (isl (parsePair (Some s)) \<longleftrightarrow>
      \<not> (\<exists>a b. trim s = a @ CHR '':'' # b \<and> CHR '':'' \<notin> set a \<and> a \<noteq> [] \<and>
               trim a \<noteq> [] \<and> trim b \<noteq> []))
   \<and> parsePair (Some ''user:pass'') = Inr (''user'', ''pass'')
   \<and> parsePair (Some ''user'') = Inl (Error ''Use format USERNAME_OR_EMAIL:PASSWORD'')
   \<and> parsePair (Some '':pass'') = Inl (Error ''Use format USERNAME_OR_EMAIL:PASSWORD'')
   \<and> parsePair (Some ''user:'') = Inl (Error ''Both login and password are required'')"
  using parsePair_iff [of s l p] parsePair_fails_iff [of s]
    parsePair_user_pass parsePair_no_colon parsePair_colon_first parsePair_no_password
  by blast

theorem parsePair_first_colon_witness:
  "parsePair (Some '' a b : c:d '') = Inr (''a b'', ''c:d'')
   \<and> (\<exists>a b. trim '' a b : c:d '' = a @ CHR '':'' # b \<and> CHR '':'' \<notin> set a \<and> a \<noteq> [] \<and>
             trim a \<noteq> [] \<and> trim b \<noteq> [] \<and> ''a b'' = trim a \<and> ''c:d'' = trim b)"
proof -
  have "parsePair (Some '' a b : c:d '') = Inr (''a b'', ''c:d'')"
    by (simp add: parsePair_eval)
  then show ?thesis
    using parsePair_first_colon [of "'' a b : c:d ''" "''a b''" "''c:d''"] by blast
qed

section \<open>Inserting accounts\<close>

lemma fold_max_ge_init: "(s::int) \<le> fold max ids s"
proof (induction ids arbitrary: s)
  case Nil
  show ?case by simp
next
  case (Cons x xs)
  have "s \<le> max x s" by simp
  also have "\<dots> \<le> fold max xs (max x s)" by (rule Cons.IH)
  finally show ?case by simp
qed

lemma fold_max_ge_elem: "i \<in> set ids \<Longrightarrow> (i::int) \<le> fold max ids s"
proof (induction ids arbitrary: s)
  case Nil
  then show ?case by simp
next
  case (Cons x xs)
  show ?case
  proof (cases "i = x")
    case True
    have "i \<le> max x s" using True by simp
    also have "\<dots> \<le> fold max xs (max x s)" by (rule fold_max_ge_init)
    finally show ?thesis by simp
  next
    case False
    with Cons.prems have "i \<in> set xs" by simp
    then show ?thesis using Cons.IH by simp
  qed
qed

lemma next_rowid_gt: "i \<in> set ids \<Longrightarrow> i < next_rowid seq ids"
  using fold_max_ge_elem [of i ids seq] by (simp add: next_rowid_def)

lemma next_rowid_fresh: "next_rowid seq ids \<notin> set ids"
  using next_rowid_gt [of "next_rowid seq ids" ids seq] by auto

lemma addAccountToMap_Inr:
  assumes "addAccountToMap db mapId login password label = Inr (db', r)"
  shows "accounts db' = accounts db @
           [\<lparr>a_id = lastInsertRowid r, a_name = js_or label login, a_map_id = mapId,
             a_data = None, a_login = login, a_password = password,
             a_label = js_or label None\<rparr>]"
    and "maps db' = maps db" and "maps_seq db' = maps_seq db"
    and "changes r = 1"
    and "lastInsertRowid r \<notin> set (map a_id (accounts db))"
    and "\<exists>m \<in> set (maps db). m_id m = mapId"
    and "login \<noteq> None \<Longrightarrow> \<forall>a \<in> set (accounts db). a_map_id a = mapId \<longrightarrow> a_login a \<noteq> login"
  using assms next_rowid_fresh [of "accounts_seq db" "map a_id (accounts db)"]
  by (auto simp: addAccountToMap_def insert_account_def Let_def split: if_splits)

lemma addAccountToMap_empty_label:
  "addAccountToMap db mapId login password (Some []) = addAccountToMap db mapId login password None"
  by (simp add: addAccountToMap_def js_or_def)

lemma addAccountPairToMap_empty_label:
  "addAccountPairToMap db mapId pair (Some []) = addAccountPairToMap db mapId pair None"
  by (simp add: addAccountPairToMap_def addAccountToMap_empty_label split: sum.splits)

lemma addAccountPairToMap_Inr:
  assumes "addAccountPairToMap db mapId pair label = Inr (db', r)"
  shows "\<exists>login password. parsePair pair = Inr (login, password) \<and>
           addAccountToMap db mapId (Some login) (Some password) label = Inr (db', r)"
  using assms by (auto simp: addAccountPairToMap_def split: sum.splits)

lemma one_map_db_created: "createMap empty_db '' main '' = Inr (one_map_db, \<lparr>changes = 1, lastInsertRowid = 1\<rparr>)"
  by (simp add: createMap_def insert_map_def empty_db_def one_map_db_def next_rowid_def
      trim_def isWhiteSpace_def)

lemmas store_eval = addAccountToMap_def insert_account_def js_or_def next_rowid_def

lemma add_bob_empty_label:
  "addAccountToMap one_map_db 1 (Some ''bob'') (Some ''pw'') (Some []) =
     Inr (one_map_db\<lparr>accounts :=
            [\<lparr>a_id = 1, a_name = Some ''bob'', a_map_id = 1, a_data = None,
              a_login = Some ''bob'', a_password = Some ''pw'', a_label = None\<rparr>],
            accounts_seq := 1\<rparr>,
          \<lparr>changes = 1, lastInsertRowid = 1\<rparr>)"
  by (simp add: store_eval one_map_db_def)

text \<open>
  Claim C9. An empty-string label is the same as no label: \<^const>\<open>addAccountToMap\<close>
  and \<^const>\<open>addAccountPairToMap\<close> return the same result and the same store for the
  label \<open>''\<close> and for \<^verbatim>\<open>null\<close>/\<^verbatim>\<open>undefined\<close>, and the row they
  store has a NULL \<^verbatim>\<open>label\<close> and the login as its legacy \<^verbatim>\<open>name\<close>.
\<close>

theorem empty_label_is_absent:
  "addAccountToMap db mapId login password (Some []) =
     addAccountToMap db mapId login password None
   \<and> addAccountPairToMap db mapId pair (Some []) = addAccountPairToMap db mapId pair None
   \<and> (addAccountToMap db mapId login password (Some []) = Inr (db', r) \<longrightarrow>
        accounts db' = accounts db @
          [\<lparr>a_id = lastInsertRowid r, a_name = login, a_map_id = mapId, a_data = None,
            a_login = login, a_password = password, a_label = None\<rparr>])"
  using addAccountToMap_empty_label [of db mapId login password]
    addAccountPairToMap_empty_label [of db mapId pair]
    addAccountToMap_Inr(1) [of db mapId login password "Some []" db' r]
  by (simp add: js_or_def)

theorem empty_label_is_absent_witness:
  "addAccountToMap one_map_db 1 (Some ''bob'') (Some ''pw'') (Some []) =
     Inr (one_map_db\<lparr>accounts :=
            [\<lparr>a_id = 1, a_name = Some ''bob'', a_map_id = 1, a_data = None,
              a_login = Some ''bob'', a_password = Some ''pw'', a_label = None\<rparr>],
            accounts_seq := 1\<rparr>,
          \<lparr>changes = 1, lastInsertRowid = 1\<rparr>)
   \<and> accounts (one_map_db\<lparr>accounts :=
            [\<lparr>a_id = 1, a_name = Some ''bob'', a_map_id = 1, a_data = None,
              a_login = Some ''bob'', a_password = Some ''pw'', a_label = None\<rparr>],
            accounts_seq := 1\<rparr>) =
       accounts one_map_db @
         [\<lparr>a_id = 1, a_name = Some ''bob'', a_map_id = 1, a_data = None,
           a_login = Some ''bob'', a_password = Some ''pw'', a_label = None\<rparr>]"
  using add_bob_empty_label
    empty_label_is_absent [of one_map_db 1 "Some ''bob''" "Some ''pw''" None
      "one_map_db\<lparr>accounts :=
            [\<lparr>a_id = 1, a_name = Some ''bob'', a_map_id = 1, a_data = None,
              a_login = Some ''bob'', a_password = Some ''pw'', a_label = None\<rparr>],
            accounts_seq := 1\<rparr>" "\<lparr>changes = 1, lastInsertRowid = 1\<rparr>"]
  by simp

section \<open>Legacy columns\<close>

lemma coalesce_js_or: "coalesce [js_or label None, login] = js_or label login"
  by (cases label) (auto simp: coalesce_def js_or_def)

lemma addAccountToMap_synced:
  assumes "addAccountToMap db mapId login password label = Inr (db', r)"
  shows "\<exists>row. accounts db' = accounts db @ [row] \<and> synced row \<and>
           a_id row = lastInsertRowid r \<and> a_map_id row = mapId \<and> a_login row = login \<and>
           a_password row = password \<and> a_label row = js_or label None \<and>
           a_name row = js_or label login"
  using addAccountToMap_Inr(1) [OF assms] by (simp add: synced_def coalesce_js_or)

lemma bulk_line_cases:
  assumes "bulk_line mapId l (db, res) = (db', res')"
  shows "(db' = db \<and> added res' = added res) \<or>
         (\<exists>row. accounts db' = accounts db @ [row] \<and> maps db' = maps db \<and> synced row \<and>
               a_map_id row = mapId \<and> a_label row = None \<and> a_login row \<noteq> None \<and>
               a_name row = a_login row \<and> added res' = added res + 1)"
proof (cases "parsePair (Some l)")
  case (Inl e)
  with assms show ?thesis by (auto simp: bulk_line_def split: if_splits)
next
  case (Inr lp)
  obtain lg pw where lp: "lp = (lg, pw)" by (cases lp)
  show ?thesis
  proof (cases "addAccountToMap db mapId (Some lg) (Some pw) None")
    case (Inl e)
    with assms Inr lp show ?thesis by (auto simp: bulk_line_def split: if_splits)
  next
    case R: (Inr dr)
    obtain d r where dr: "dr = (d, r)" by (cases dr)
    from assms Inr lp R dr have "db' = d" "added res' = added res + 1"
      by (auto simp: bulk_line_def)
    moreover from R dr have "addAccountToMap db mapId (Some lg) (Some pw) None = Inr (d, r)"
      by simp
    note addAccountToMap_synced [OF this] addAccountToMap_Inr(2) [OF this]
    ultimately show ?thesis by (auto simp: js_or_def)
  qed
qed

lemma bulk_fold_rows:
  assumes "fold (bulk_line mapId) ls (db, res) = (db', res')"
  shows "\<exists>new. accounts db' = accounts db @ new \<and> maps db' = maps db \<and>
           added res' = added res + length new \<and>
           (\<forall>row \<in> set new. synced row \<and> a_map_id row = mapId \<and> a_label row = None \<and>
              a_login row \<noteq> None \<and> a_name row = a_login row)"
  using assms
proof (induction ls arbitrary: db res)
  case Nil
  then show ?case by simp
next
  case (Cons l ls)
  obtain d1 r1 where s1: "bulk_line mapId l (db, res) = (d1, r1)"
    by (cases "bulk_line mapId l (db, res)")
  with Cons.prems have rest: "fold (bulk_line mapId) ls (d1, r1) = (db', res')" by simp
  from Cons.IH [OF rest] obtain new where new:
    "accounts db' = accounts d1 @ new" "maps db' = maps d1"
    "added res' = added r1 + length new"
    "\<forall>row \<in> set new. synced row \<and> a_map_id row = mapId \<and> a_label row = None \<and>
              a_login row \<noteq> None \<and> a_name row = a_login row"
    by blast
  from bulk_line_cases [OF s1] show ?case
  proof
    assume "d1 = db \<and> added r1 = added res"
    with new show ?thesis by auto
  next
    assume "\<exists>row. accounts d1 = accounts db @ [row] \<and> maps d1 = maps db \<and> synced row \<and>
               a_map_id row = mapId \<and> a_label row = None \<and> a_login row \<noteq> None \<and>
               a_name row = a_login row \<and> added r1 = added res + 1"
    then obtain row where row: "accounts d1 = accounts db @ [row]" "maps d1 = maps db"
      "synced row" "a_map_id row = mapId" "a_label row = None" "a_login row \<noteq> None"
      "a_name row = a_login row" "added r1 = added res + 1" by blast
    have "accounts db' = accounts db @ (row # new)" using new(1) row(1) by simp
    moreover have "added res' = added res + length (row # new)" using new(3) row(8) by simp
    moreover have "\<forall>x \<in> set (row # new). synced x \<and> a_map_id x = mapId \<and> a_label x = None \<and>
              a_login x \<noteq> None \<and> a_name x = a_login x" using new(4) row by simp
    moreover have "maps db' = maps db" using new(2) row(2) by simp
    ultimately show ?thesis by (intro exI [of _ "row # new"] conjI)
  qed
qed

lemma bulkAddPairs_rows:
  assumes "bulkAddPairs db mapId pairsText = (db', res)"
  shows "\<exists>new. accounts db' = accounts db @ new \<and> maps db' = maps db \<and>
           added res = length new \<and>
           (\<forall>row \<in> set new. synced row \<and> a_map_id row = mapId \<and> a_label row = None \<and>
              a_login row \<noteq> None \<and> a_name row = a_login row)"
  using bulk_fold_rows [of mapId _ db "\<lparr>added = 0, duplicates = 0, errors = []\<rparr>" db' res] assms
  by (simp add: bulkAddPairs_def Let_def)

text \<open>
  Claim C8. Every insert keeps the legacy columns in step: the row stored by
  \<^const>\<open>addAccountToMap\<close> and by \<^const>\<open>addAccountPairToMap\<close> has as legacy
  \<^verbatim>\<open>name\<close> the label when one is given (and not empty), else the login, which is
  the effective label \<^verbatim>\<open>COALESCE(label, login)\<close> of the stored row, and NULL as
  legacy \<^verbatim>\<open>data\<close>; every row stored by \<^const>\<open>bulkAddPairs\<close> has no label, its
  login as \<^verbatim>\<open>name\<close> and NULL as \<^verbatim>\<open>data\<close>, and there are as many new rows as the
  summary counts as added.
\<close>

theorem legacy_name_synchronized:
  "(addAccountToMap db mapId login password label = Inr (db1, r1) \<longrightarrow>
      (\<exists>row. accounts db1 = accounts db @ [row] \<and> a_id row = lastInsertRowid r1 \<and>
         a_name row =
           (case label of None \<Rightarrow> login | Some s \<Rightarrow> if s = [] then login else Some s) \<and>
         a_name row = coalesce [a_label row, a_login row] \<and> a_data row = None))
   \<and> (addAccountPairToMap db mapId pair label = Inr (db2, r2) \<longrightarrow>
      (\<exists>row. accounts db2 = accounts db @ [row] \<and> a_id row = lastInsertRowid r2 \<and>
         a_name row =
           (case label of None \<Rightarrow> a_login row
            | Some s \<Rightarrow> if s = [] then a_login row else Some s) \<and>
         a_name row = coalesce [a_label row, a_login row] \<and> a_data row = None))
   \<and> (bulkAddPairs db mapId pairsText = (db3, res) \<longrightarrow>
      (\<exists>new. accounts db3 = accounts db @ new \<and> length new = added res \<and>
         (\<forall>row \<in> set new. a_label row = None \<and> a_name row = a_login row \<and>
            a_name row = coalesce [a_label row, a_login row] \<and> a_data row = None)))"
proof (intro conjI impI)
  assume "addAccountToMap db mapId login password label = Inr (db1, r1)"
  from addAccountToMap_synced [OF this]
  show "\<exists>row. accounts db1 = accounts db @ [row] \<and> a_id row = lastInsertRowid r1 \<and>
         a_name row =
           (case label of None \<Rightarrow> login | Some s \<Rightarrow> if s = [] then login else Some s) \<and>
         a_name row = coalesce [a_label row, a_login row] \<and> a_data row = None"
    by (auto simp: synced_def js_or_def split: option.splits)
next
  assume "addAccountPairToMap db mapId pair label = Inr (db2, r2)"
  from addAccountPairToMap_Inr [OF this] obtain lg pw where
    "addAccountToMap db mapId (Some lg) (Some pw) label = Inr (db2, r2)" by blast
  from addAccountToMap_synced [OF this]
  show "\<exists>row. accounts db2 = accounts db @ [row] \<and> a_id row = lastInsertRowid r2 \<and>
         a_name row =
           (case label of None \<Rightarrow> a_login row
            | Some s \<Rightarrow> if s = [] then a_login row else Some s) \<and>
         a_name row = coalesce [a_label row, a_login row] \<and> a_data row = None"
    by (auto simp: synced_def js_or_def split: option.splits)
next
  assume "bulkAddPairs db mapId pairsText = (db3, res)"
  from bulkAddPairs_rows [OF this]
  show "\<exists>new. accounts db3 = accounts db @ new \<and> length new = added res \<and>
         (\<forall>row \<in> set new. a_label row = None \<and> a_name row = a_login row \<and>
            a_name row = coalesce [a_label row, a_login row] \<and> a_data row = None)"
    by (auto simp: synced_def)
qed

lemma add_bobby:
  "addAccountToMap one_map_db 1 (Some ''bob'') (Some ''pw'') (Some ''Bobby'') =
     Inr (bobby_db, \<lparr>changes = 1, lastInsertRowid = 1\<rparr>)"
  by (simp add: store_eval one_map_db_def bobby_db_def)

lemma parsePair_bob: "parsePair (Some ''bob:pw'') = Inr (''bob'', ''pw'')"
  by (simp add: parsePair_eval)

lemma add_pair_bobby:
  "addAccountPairToMap one_map_db 1 (Some ''bob:pw'') (Some ''Bobby'') =
     Inr (bobby_db, \<lparr>changes = 1, lastInsertRowid = 1\<rparr>)"
  by (simp add: addAccountPairToMap_def parsePair_bob add_bobby)

lemma add_bob:
  "addAccountToMap one_map_db 1 (Some ''bob'') (Some ''pw'') None =
     Inr (bob_db, \<lparr>changes = 1, lastInsertRowid = 1\<rparr>)"
  by (simp add: store_eval one_map_db_def bob_db_def)

lemma split_lines_bob: "split_lines ''bob:pw'' = [''bob:pw'']"
  by simp

lemma trim_bob: "trim ''bob:pw'' = ''bob:pw''"
  by (simp add: trim_def isWhiteSpace_def)

lemma bulk_bob:
  "bulkAddPairs one_map_db 1 (Some ''bob:pw'') =
     (bob_db, \<lparr>added = 1, duplicates = 0, errors = []\<rparr>)"
  by (simp add: bulkAddPairs_def or_empty_def split_lines_bob trim_bob bulk_line_def
      parsePair_bob add_bob)

theorem legacy_name_synchronized_witness:
  "addAccountToMap one_map_db 1 (Some ''bob'') (Some ''pw'') (Some ''Bobby'') =
     Inr (bobby_db, \<lparr>changes = 1, lastInsertRowid = 1\<rparr>)
   \<and> addAccountPairToMap one_map_db 1 (Some ''bob:pw'') (Some ''Bobby'') =
     Inr (bobby_db, \<lparr>changes = 1, lastInsertRowid = 1\<rparr>)
   \<and> bulkAddPairs one_map_db 1 (Some ''bob:pw'') =
     (bob_db, \<lparr>added = 1, duplicates = 0, errors = []\<rparr>)
   \<and> (\<exists>row. accounts bobby_db = accounts one_map_db @ [row] \<and> a_id row = 1 \<and>
         a_name row = Some ''Bobby'' \<and> a_data row = None)
   \<and> (\<exists>new. accounts bob_db = accounts one_map_db @ new \<and> length new = 1 \<and>
         (\<forall>row \<in> set new. a_label row = None \<and> a_name row = a_login row \<and> a_data row = None))"
  using add_bobby add_pair_bobby bulk_bob
    legacy_name_synchronized [of one_map_db 1 "Some ''bob''" "Some ''pw''" "Some ''Bobby''"
      bobby_db "\<lparr>changes = 1, lastInsertRowid = 1\<rparr>" "Some ''bob:pw''"
      bobby_db "\<lparr>changes = 1, lastInsertRowid = 1\<rparr>" "Some ''bob:pw''"
      bob_db "\<lparr>added = 1, duplicates = 0, errors = []\<rparr>"]
  by auto

section \<open>The NOCASE collation\<close>

lemma ascii_lower_cases:
  "ascii_lower c = c \<or>
   (65 \<le> (of_char c :: nat) \<and> (of_char c :: nat) \<le> 90 \<and>
    (of_char (ascii_lower c) :: nat) = of_char c + 32)"
  by (auto simp: ascii_lower_def)

lemma ascii_lower_high: "\<not> c < CHR 0x80 \<Longrightarrow> ascii_lower c = c"
  using ascii_lower_cases [of c] by (auto simp: less_char_def)

lemma ascii_lower_low: "ascii_lower c < CHR 0x80 \<longleftrightarrow> c < CHR 0x80"
  using ascii_lower_cases [of c] by (auto simp: less_char_def)

lemma ascii_lower_NUL: "ascii_lower c = CHR 0x00 \<longleftrightarrow> c = CHR 0x00"
proof
  assume a: "ascii_lower c = CHR 0x00"
  from ascii_lower_cases [of c] show "c = CHR 0x00"
  proof
    assume "ascii_lower c = c" with a show ?thesis by simp
  next
    assume "65 \<le> (of_char c :: nat) \<and> (of_char c :: nat) \<le> 90 \<and>
      (of_char (ascii_lower c) :: nat) = of_char c + 32"
    with a show ?thesis by simp
  qed
next
  assume "c = CHR 0x00" then show "ascii_lower c = CHR 0x00" by (simp add: ascii_lower_def)
qed


lemma utf8_char_low: "c < CHR 0x80 \<Longrightarrow> utf8_char c = [c]"
  by (simp add: utf8_char_def)

lemma of_char_minus_64: "(of_char c - (64::nat)) mod 256 = of_char c - 64"
proof -
  have "n < 256 \<Longrightarrow> (n - 64) mod 256 = n - 64" for n :: nat by simp
  from this [OF nat_of_char_less_256] show ?thesis .
qed

lemma utf8_char_high:
  assumes "\<not> c < CHR 0x80"
  shows "\<exists>h l. utf8_char c = [h, l] \<and> \<not> h < CHR 0x80 \<and> \<not> l < CHR 0x80"
proof (cases "c < CHR 0xC0")
  case True
  with assms show ?thesis by (simp add: utf8_char_def)
next
  case False
  then have "192 \<le> (of_char c :: nat)" by (simp add: less_char_def)
  moreover have "(of_char (char_of (of_char c - (64::nat))) :: nat) = of_char c - 64"
    by (simp add: of_char_minus_64)
  ultimately have "\<not> char_of (of_char c - (64::nat)) < CHR 0x80"
    by (simp add: less_char_def)
  with assms False show ?thesis by (simp add: utf8_char_def)
qed

lemma utf8_char_inj:
  assumes "utf8_char c = utf8_char d"
  shows "c = d"
proof -
  have hi: "c = d" if c: "\<not> c < CHR 0xC0" and d: "\<not> d < CHR 0xC0"
    and e: "char_of (of_char c - (64::nat)) = char_of (of_char d - (64::nat))" for c d
  proof -
    from c d have b: "192 \<le> (of_char c :: nat)" "192 \<le> (of_char d :: nat)"
      by (simp_all add: less_char_def)
    have "(of_char (char_of (of_char c - (64::nat))) :: nat) = of_char c - 64"
         "(of_char (char_of (of_char d - (64::nat))) :: nat) = of_char d - 64"
      by (simp_all add: of_char_minus_64)
    with e have "(of_char c :: nat) - 64 = of_char d - 64" by simp
    with b have "(of_char c :: nat) = of_char d" by linarith
    then show ?thesis by simp
  qed
  show ?thesis
    using assms hi [of c d]
    by (auto simp: utf8_char_def split: if_splits)
qed

lemma utf8_Cons: "utf8 (c # s) = utf8_char c @ utf8 s"
  by (simp add: utf8_def)

lemma utf8_Nil: "utf8 [] = []"
  by (simp add: utf8_def)

lemma utf8_char_not_Nil: "utf8_char c \<noteq> []"
  by (simp add: utf8_char_def)

lemma collate_step_same:
  assumes "ascii_lower c = ascii_lower d"
  shows "strnicmp_zero (utf8_char c @ a) (utf8_char d @ b) \<longleftrightarrow>
           c = CHR 0x00 \<or> strnicmp_zero a b"
    and "length (utf8_char c) = length (utf8_char d)"
proof -
  show "length (utf8_char c) = length (utf8_char d)"
  proof (cases "c < CHR 0x80")
    case True
    then have "d < CHR 0x80" using assms ascii_lower_low by metis
    with True show ?thesis by (simp add: utf8_char_low)
  next
    case False
    then have "\<not> d < CHR 0x80" using assms ascii_lower_low by metis
    with False show ?thesis using utf8_char_high [of c] utf8_char_high [of d] by auto
  qed
  show "strnicmp_zero (utf8_char c @ a) (utf8_char d @ b) \<longleftrightarrow>
           c = CHR 0x00 \<or> strnicmp_zero a b"
  proof (cases "c < CHR 0x80")
    case True
    then have d: "d < CHR 0x80" using assms ascii_lower_low by metis
    show ?thesis
    proof (cases "c = CHR 0x00")
      case True
      then have "d = CHR 0x00" using assms ascii_lower_NUL by metis
      with True show ?thesis by (simp add: utf8_char_low)
    next
      case False
      with True d assms show ?thesis by (simp add: utf8_char_low)
    qed
  next
    case False
    then have d: "\<not> d < CHR 0x80" using assms ascii_lower_low by metis
    with False assms have "c = d" by (simp add: ascii_lower_high)
    obtain h l where hl: "utf8_char c = [h, l]" "\<not> h < CHR 0x80" "\<not> l < CHR 0x80"
      using utf8_char_high [OF False] by blast
    have "h \<noteq> CHR 0x00" "l \<noteq> CHR 0x00" "c \<noteq> CHR 0x00"
      using hl(2,3) False by auto
    then show ?thesis using hl(1) \<open>c = d\<close> by simp
  qed
qed

lemma collate_step_differ:
  assumes "ascii_lower c \<noteq> ascii_lower d"
  shows "\<not> strnicmp_zero (utf8_char c @ a) (utf8_char d @ b)"
proof (cases "c < CHR 0x80")
  case c: True
  show ?thesis
  proof (cases "d < CHR 0x80")
    case True
    with c assms show ?thesis by (simp add: utf8_char_low)
  next
    case False
    obtain h l where hl: "utf8_char d = [h, l]" "\<not> h < CHR 0x80" "\<not> l < CHR 0x80"
      using utf8_char_high [OF False] by blast
    have "ascii_lower c < CHR 0x80" using c by (simp add: ascii_lower_low)
    moreover have "ascii_lower h = h" using hl(2) by (rule ascii_lower_high)
    ultimately have "ascii_lower c \<noteq> ascii_lower h" using hl(2) by auto
    then show ?thesis using c hl(1) by (simp add: utf8_char_low)
  qed
next
  case c: False
  obtain h l where hl: "utf8_char c = [h, l]" "\<not> h < CHR 0x80" "\<not> l < CHR 0x80"
    using utf8_char_high [OF c] by blast
  have fh: "ascii_lower h = h" "ascii_lower l = l" using hl(2,3) by (simp_all add: ascii_lower_high)
  have nz: "h \<noteq> CHR 0x00" "l \<noteq> CHR 0x00" using hl(2,3) by auto
  show ?thesis
  proof (cases "d < CHR 0x80")
    case True
    have "ascii_lower d < CHR 0x80" using True by (simp add: ascii_lower_low)
    then have "ascii_lower h \<noteq> ascii_lower d" using fh(1) hl(2) by auto
    then show ?thesis using True hl(1) by (simp add: utf8_char_low)
  next
    case False
    obtain h' l' where hl': "utf8_char d = [h', l']" "\<not> h' < CHR 0x80" "\<not> l' < CHR 0x80"
      using utf8_char_high [OF False] by blast
    have fh': "ascii_lower h' = h'" "ascii_lower l' = l'"
      using hl'(2,3) by (simp_all add: ascii_lower_high)
    have "c \<noteq> d" using assms by auto
    then have "utf8_char c \<noteq> utf8_char d" using utf8_char_inj by blast
    then have "h \<noteq> h' \<or> l \<noteq> l'" using hl(1) hl'(1) by simp
    then show ?thesis using hl(1) hl'(1) fh fh' nz by auto
  qed
qed

lemma nocase_imp_nocase_eq:
  assumes "nocase s = nocase t"
  shows "nocase_eq s t"
proof -
  from assms have "length s = length t" unfolding nocase_def by (rule map_eq_imp_length_eq)
  then show ?thesis using assms
  proof (induction s t rule: list_induct2)
    case Nil
    then show ?case by (simp add: nocase_eq_def utf8_Nil)
  next
    case (Cons c s d t)
    then have e: "ascii_lower c = ascii_lower d" and "nocase s = nocase t"
      by (simp_all add: nocase_def)
    with Cons.IH have "nocase_eq s t" by simp
    then show ?case
      using collate_step_same(1) [OF e, of "utf8 s" "utf8 t"] collate_step_same(2) [OF e]
      by (simp add: nocase_eq_def utf8_Cons)
  qed
qed

lemma nocase_eq_imp_nocase:
  assumes "nocase_eq s t" and "CHR 0x00 \<notin> set s"
  shows "nocase s = nocase t"
  using assms
proof (induction s arbitrary: t)
  case Nil
  then have "utf8 t = []" by (simp add: nocase_eq_def utf8_Nil)
  then have "t = []" using utf8_char_not_Nil by (cases t) (auto simp: utf8_Cons)
  then show ?case by simp
next
  case (Cons c s)
  show ?case
  proof (cases t)
    case Nil
    with Cons.prems(1) show ?thesis
      using utf8_char_not_Nil [of c] by (simp add: nocase_eq_def utf8_Cons utf8_Nil)
  next
    case t: (Cons d t')
    from Cons.prems(1) t have z: "strnicmp_zero (utf8_char c @ utf8 s) (utf8_char d @ utf8 t')"
      and len: "length (utf8_char c @ utf8 s) = length (utf8_char d @ utf8 t')"
      by (simp_all add: nocase_eq_def utf8_Cons)
    have e: "ascii_lower c = ascii_lower d"
      using z collate_step_differ [of c d "utf8 s" "utf8 t'"] by blast
    have "c \<noteq> CHR 0x00" using Cons.prems(2) by auto
    with z have "strnicmp_zero (utf8 s) (utf8 t')"
      using collate_step_same(1) [OF e, of "utf8 s" "utf8 t'"] by simp
    moreover have "length (utf8 s) = length (utf8 t')"
      using len collate_step_same(2) [OF e] by simp
    ultimately have "nocase_eq s t'" by (simp add: nocase_eq_def)
    moreover have "CHR 0x00 \<notin> set s" using Cons.prems(2) by simp
    ultimately have "nocase s = nocase t'" by (rule Cons.IH)
    with e t show ?thesis by (simp add: nocase_def)
  qed
qed

lemma nocase_eq_sym: "nocase_eq s t \<Longrightarrow> nocase_eq t s"
proof (induction s arbitrary: t)
  case Nil
  then have "utf8 t = []" by (simp add: nocase_eq_def utf8_Nil)
  then show ?case by (simp add: nocase_eq_def utf8_Nil)
next
  case (Cons c s)
  show ?case
  proof (cases t)
    case Nil
    with Cons.prems show ?thesis
      using utf8_char_not_Nil [of c] by (simp add: nocase_eq_def utf8_Cons utf8_Nil)
  next
    case t: (Cons d t')
    from Cons.prems t have z: "strnicmp_zero (utf8_char c @ utf8 s) (utf8_char d @ utf8 t')"
      and len: "length (utf8_char c @ utf8 s) = length (utf8_char d @ utf8 t')"
      by (simp_all add: nocase_eq_def utf8_Cons)
    have e: "ascii_lower c = ascii_lower d"
      using z collate_step_differ [of c d "utf8 s" "utf8 t'"] by blast
    have l: "length (utf8 s) = length (utf8 t')"
      using len collate_step_same(2) [OF e] by simp
    have cd: "c = CHR 0x00 \<longleftrightarrow> d = CHR 0x00" using e ascii_lower_NUL by metis
    from z have "c = CHR 0x00 \<or> strnicmp_zero (utf8 s) (utf8 t')"
      using collate_step_same(1) [OF e, of "utf8 s" "utf8 t'"] by simp
    then have "d = CHR 0x00 \<or> strnicmp_zero (utf8 t') (utf8 s)"
    proof
      assume "c = CHR 0x00" then show ?thesis using cd by simp
    next
      assume "strnicmp_zero (utf8 s) (utf8 t')"
      with l have "nocase_eq s t'" by (simp add: nocase_eq_def)
      then have "nocase_eq t' s" by (rule Cons.IH)
      then show ?thesis by (simp add: nocase_eq_def)
    qed
    then have "strnicmp_zero (utf8_char d @ utf8 t') (utf8_char c @ utf8 s)"
      using collate_step_same(1) [OF e [symmetric], of "utf8 t'" "utf8 s"] by simp
    with len t show ?thesis by (simp add: nocase_eq_def utf8_Cons)
  qed
qed

lemma nocase_eq_iff_nocase:
  assumes "CHR 0x00 \<notin> set s \<or> CHR 0x00 \<notin> set t"
  shows "nocase_eq s t \<longleftrightarrow> nocase s = nocase t"
proof
  assume e: "nocase_eq s t"
  from assms show "nocase s = nocase t"
  proof
    assume "CHR 0x00 \<notin> set s"
    with e show ?thesis by (rule nocase_eq_imp_nocase)
  next
    assume "CHR 0x00 \<notin> set t"
    moreover have "nocase_eq t s" using e by (rule nocase_eq_sym)
    ultimately have "nocase t = nocase s" by (intro nocase_eq_imp_nocase)
    then show ?thesis by simp
  qed
next
  assume "nocase s = nocase t"
  then show "nocase_eq s t" by (rule nocase_imp_nocase_eq)
qed

lemmas nocase_eq_eval = nocase_eq_def utf8_def utf8_char_def ascii_lower_def

lemma nocase_eq_after_NUL:
  "nocase_eq [CHR ''a'', CHR 0x00, CHR ''b''] [CHR ''a'', CHR 0x00, CHR ''c'']"
  "\<not> nocase_eq [CHR ''a'', CHR 0x00, CHR ''b''] [CHR ''a'', CHR 0x00, CHR ''c'', CHR ''d'']"
  by (simp_all add: nocase_eq_eval)


section \<open>Integrity of the store, and creating maps\<close>

lemma integrity_empty_db: "integrity empty_db"
  by (simp add: integrity_def empty_db_def)

lemma createMap_Inr:
  assumes "createMap db name = Inr (db', r)"
  shows "maps db' = maps db @ [\<lparr>m_id = lastInsertRowid r, m_name = trim name\<rparr>]"
    and "accounts db' = accounts db" and "changes r = 1"
    and "lastInsertRowid r \<notin> set (map m_id (maps db))"
    and "\<forall>m \<in> set (maps db). \<not> nocase_eq (m_name m) (trim name)"
  using assms next_rowid_fresh [of "maps_seq db" "map m_id (maps db)"]
  by (auto simp: createMap_def insert_map_def Let_def split: if_splits)

lemma createMap_duplicate:
  assumes "m \<in> set (maps db)" and "nocase_eq (m_name m) (trim name)"
  shows "createMap db name = Inl (SqliteError ''UNIQUE constraint failed: maps.name'')"
  using assms by (auto simp: createMap_def insert_map_def)

lemma createMap_fresh:
  assumes "\<forall>m \<in> set (maps db). \<not> nocase_eq (m_name m) (trim name)"
  shows "\<exists>db' r. createMap db name = Inr (db', r)"
  using assms by (auto simp: createMap_def insert_map_def Let_def)

lemma createMap_integrity:
  assumes "integrity db" and "createMap db name = Inr (db', r)"
  shows "integrity db'"
proof -
  have "\<forall>m \<in> set (maps db). nocase (m_name m) \<noteq> nocase (trim name)"
    using createMap_Inr(5) [OF assms(2)] nocase_imp_nocase_eq by blast
  then show ?thesis
    using assms(1) createMap_Inr(1,2,4) [OF assms(2)]
    by (auto simp: integrity_def)
qed

lemma find_append_new:
  assumes "\<forall>x \<in> set xs. \<not> P x" and "P y"
  shows "find P (xs @ [y]) = Some y"
  using assms by (induction xs) auto

lemma createMap_getMapById:
  assumes "createMap db name = Inr (db', r)"
  shows "getMapById db' (lastInsertRowid r) = Some \<lparr>m_id = lastInsertRowid r, m_name = trim name\<rparr>"
proof -
  have "\<forall>m \<in> set (maps db). m_id m \<noteq> lastInsertRowid r"
    using createMap_Inr(4) [OF assms] by (auto simp: image_iff)
  then show ?thesis
    unfolding getMapById_def createMap_Inr(1) [OF assms]
    by (intro find_append_new) auto
qed

lemma createMap_again:
  assumes "createMap db n1 = Inr (db', r)"
    and "nocase_eq (trim n1) (trim n2) \<or> nocase (trim n2) = nocase (trim n1)"
  shows "createMap db' n2 = Inl (SqliteError ''UNIQUE constraint failed: maps.name'')"
proof -
  let ?m = "\<lparr>m_id = lastInsertRowid r, m_name = trim n1\<rparr>"
  have "?m \<in> set (maps db')" using createMap_Inr(1) [OF assms(1)] by simp
  moreover have "nocase_eq (m_name ?m) (trim n2)"
    using assms(2) nocase_imp_nocase_eq [of "trim n1" "trim n2"] by auto
  ultimately show ?thesis by (rule createMap_duplicate)
qed

lemma createMap_duplicate_iff:
  assumes "CHR 0x00 \<notin> set (trim name)"
  shows "(\<exists>m \<in> set (maps db). nocase_eq (m_name m) (trim name)) \<longleftrightarrow>
         (\<exists>m \<in> set (maps db). nocase (m_name m) = nocase (trim name))"
  using assms nocase_eq_iff_nocase [of _ "trim name"] by blast

text \<open>
  Claim C5, as the code has it. \<^const>\<open>createMap\<close> trims the name and hands it to the
  store; it makes no check of its own. When a map exists whose name equals the trimmed
  name under the store's NOCASE collation, it fails with the store's UNIQUE error; that
  is the case whenever the two names are equal up to the case of ASCII letters.
  Otherwise it succeeds: the map is appended with the trimmed name and a fresh id, that id
  is returned as \<^const>\<open>lastInsertRowid\<close>, \<^const>\<open>getMapById\<close> finds the new map under it,
  the accounts are untouched, and creating any name that equals it under NOCASE, so any
  name that differs from it only in case or in surrounding whitespace, now fails with
  the UNIQUE error. For a trimmed name without a NUL character, equality under NOCASE is
  exactly equality up to the case of ASCII letters; the collation stops at the first NUL,
  so two names of the same byte length that agree up to a NUL are equal for the store
  whatever follows it.
\<close>

theorem createMap_trims_and_rejects_duplicates:
  "((\<exists>m \<in> set (maps db). nocase_eq (m_name m) (trim name)) \<longrightarrow>
      createMap db name = Inl (SqliteError ''UNIQUE constraint failed: maps.name''))
   \<and> ((\<exists>m \<in> set (maps db). nocase (m_name m) = nocase (trim name)) \<longrightarrow>
      createMap db name = Inl (SqliteError ''UNIQUE constraint failed: maps.name''))
   \<and> (\<not> (\<exists>m \<in> set (maps db). nocase_eq (m_name m) (trim name)) \<longrightarrow>
      (\<exists>db' r. createMap db name = Inr (db', r) \<and>
         maps db' = maps db @ [\<lparr>m_id = lastInsertRowid r, m_name = trim name\<rparr>] \<and>
         accounts db' = accounts db \<and>
         lastInsertRowid r \<notin> set (map m_id (maps db)) \<and>
         getMapById db' (lastInsertRowid r) =
           Some \<lparr>m_id = lastInsertRowid r, m_name = trim name\<rparr> \<and>
         (\<forall>n2. nocase_eq (trim name) (trim n2) \<or> nocase (trim n2) = nocase (trim name) \<longrightarrow>
            createMap db' n2 = Inl (SqliteError ''UNIQUE constraint failed: maps.name''))))
   \<and> (CHR 0x00 \<notin> set (trim name) \<longrightarrow>
      ((\<exists>m \<in> set (maps db). nocase_eq (m_name m) (trim name)) \<longleftrightarrow>
       (\<exists>m \<in> set (maps db). nocase (m_name m) = nocase (trim name))))"
proof (intro conjI impI)
  assume "\<exists>m \<in> set (maps db). nocase_eq (m_name m) (trim name)"
  then show "createMap db name = Inl (SqliteError ''UNIQUE constraint failed: maps.name'')"
    using createMap_duplicate by blast
next
  assume "\<exists>m \<in> set (maps db). nocase (m_name m) = nocase (trim name)"
  then have "\<exists>m \<in> set (maps db). nocase_eq (m_name m) (trim name)"
    using nocase_imp_nocase_eq by blast
  then show "createMap db name = Inl (SqliteError ''UNIQUE constraint failed: maps.name'')"
    using createMap_duplicate by blast
next
  assume "\<not> (\<exists>m \<in> set (maps db). nocase_eq (m_name m) (trim name))"
  then obtain db' r where ok: "createMap db name = Inr (db', r)"
    using createMap_fresh [of db name] by blast
  show "\<exists>db' r. createMap db name = Inr (db', r) \<and>
         maps db' = maps db @ [\<lparr>m_id = lastInsertRowid r, m_name = trim name\<rparr>] \<and>
         accounts db' = accounts db \<and>
         lastInsertRowid r \<notin> set (map m_id (maps db)) \<and>
         getMapById db' (lastInsertRowid r) =
           Some \<lparr>m_id = lastInsertRowid r, m_name = trim name\<rparr> \<and>
         (\<forall>n2. nocase_eq (trim name) (trim n2) \<or> nocase (trim n2) = nocase (trim name) \<longrightarrow>
            createMap db' n2 = Inl (SqliteError ''UNIQUE constraint failed: maps.name''))"
    using ok createMap_Inr(1,2,4) [OF ok] createMap_getMapById [OF ok] createMap_again [OF ok]
    by blast
next
  assume "CHR 0x00 \<notin> set (trim name)"
  then show "(\<exists>m \<in> set (maps db). nocase_eq (m_name m) (trim name)) \<longleftrightarrow>
       (\<exists>m \<in> set (maps db). nocase (m_name m) = nocase (trim name))"
    by (rule createMap_duplicate_iff)
qed

text \<open>
  The claim says that an empty trimmed name is refused. \<^const>\<open>createMap\<close> has no such
  check (its two callers make it, lines 494 and 676): on the empty store the name of
  three spaces is stored as the map with the empty name.
\<close>

theorem createMap_empty_name_counterexample:
  "createMap empty_db ''   '' =
     Inr (\<lparr>maps = [\<lparr>m_id = 1, m_name = []\<rparr>], accounts = [], maps_seq = 1, accounts_seq = 0\<rparr>,
          \<lparr>changes = 1, lastInsertRowid = 1\<rparr>)"
  by (simp add: createMap_def insert_map_def empty_db_def next_rowid_def trim_def isWhiteSpace_def)

lemma nul_name_db_created:
  "createMap empty_db [CHR ''a'', CHR 0x00, CHR ''b''] =
     Inr (nul_name_db, \<lparr>changes = 1, lastInsertRowid = 1\<rparr>)"
  by (simp add: createMap_def insert_map_def empty_db_def nul_name_db_def next_rowid_def
      trim_def isWhiteSpace_def)

theorem createMap_trims_and_rejects_duplicates_witness:
  "(\<exists>m \<in> set (maps one_map_db). nocase_eq (m_name m) (trim '' MAIN''))
   \<and> createMap one_map_db '' MAIN'' = Inl (SqliteError ''UNIQUE constraint failed: maps.name'')
   \<and> \<not> (\<exists>m \<in> set (maps empty_db). nocase_eq (m_name m) (trim '' main ''))
   \<and> createMap empty_db '' main '' = Inr (one_map_db, \<lparr>changes = 1, lastInsertRowid = 1\<rparr>)
   \<and> nocase (trim '' MAIN'') = nocase (trim '' main '')
   \<and> (\<exists>db' r. createMap empty_db '' main '' = Inr (db', r) \<and>
         createMap db' '' MAIN'' = Inl (SqliteError ''UNIQUE constraint failed: maps.name''))
   \<and> createMap empty_db [CHR ''a'', CHR 0x00, CHR ''b''] =
        Inr (nul_name_db, \<lparr>changes = 1, lastInsertRowid = 1\<rparr>)
   \<and> (\<exists>m \<in> set (maps nul_name_db). nocase_eq (m_name m) (trim [CHR ''a'', CHR 0x00, CHR ''c'']))
   \<and> createMap nul_name_db [CHR ''a'', CHR 0x00, CHR ''c''] =
        Inl (SqliteError ''UNIQUE constraint failed: maps.name'')"
proof -
  have a: "\<exists>m \<in> set (maps one_map_db). nocase_eq (m_name m) (trim '' MAIN'')"
    by (simp add: one_map_db_def nocase_eq_eval trim_def isWhiteSpace_def)
  have b: "\<not> (\<exists>m \<in> set (maps empty_db). nocase_eq (m_name m) (trim '' main ''))"
    by (simp add: empty_db_def)
  have c: "nocase (trim '' MAIN'') = nocase (trim '' main '')"
    by (simp add: nocase_def ascii_lower_def trim_def isWhiteSpace_def)
  from a createMap_trims_and_rejects_duplicates [of one_map_db "'' MAIN''"]
  have d: "createMap one_map_db '' MAIN'' = Inl (SqliteError ''UNIQUE constraint failed: maps.name'')"
    by blast
  from b createMap_trims_and_rejects_duplicates [of empty_db "'' main ''"]
  obtain db' r where e: "createMap empty_db '' main '' = Inr (db', r)"
    "\<forall>n2. nocase_eq (trim '' main '') (trim n2) \<or> nocase (trim n2) = nocase (trim '' main '') \<longrightarrow>
            createMap db' n2 = Inl (SqliteError ''UNIQUE constraint failed: maps.name'')"
    by blast
  from e(2) c have f: "createMap db' '' MAIN'' = Inl (SqliteError ''UNIQUE constraint failed: maps.name'')"
    by blast
  have g: "\<exists>m \<in> set (maps nul_name_db). nocase_eq (m_name m) (trim [CHR ''a'', CHR 0x00, CHR ''c''])"
    by (simp add: nul_name_db_def nocase_eq_eval trim_def isWhiteSpace_def)
  from g createMap_trims_and_rejects_duplicates [of nul_name_db "[CHR ''a'', CHR 0x00, CHR ''c'']"]
  have h: "createMap nul_name_db [CHR ''a'', CHR 0x00, CHR ''c''] =
        Inl (SqliteError ''UNIQUE constraint failed: maps.name'')"
    by blast
  from a b c d e(1) f g h one_map_db_created nul_name_db_created show ?thesis by blast
qed


section \<open>Uniqueness of logins\<close>

lemma addAccountToMap_duplicate:
  assumes "a \<in> set (accounts db)" and "a_login a = Some L" and "a_map_id a = M"
  shows "addAccountToMap db M (Some L) pw lb =
           Inl (SqliteError ''UNIQUE constraint failed: accounts.login, accounts.map_id'')"
  using assms by (auto simp: addAccountToMap_def insert_account_def)

lemma addAccountToMap_no_map:
  assumes "\<forall>m \<in> set (maps db). m_id m \<noteq> M"
    and "lg = None \<or> (\<forall>a \<in> set (accounts db). a_map_id a = M \<longrightarrow> a_login a \<noteq> lg)"
  shows "addAccountToMap db M lg pw lb = Inl (SqliteError ''FOREIGN KEY constraint failed'')"
  using assms by (auto simp: addAccountToMap_def insert_account_def)

lemma addAccountToMap_succeeds:
  assumes "m \<in> set (maps db)" and "m_id m = M"
    and "lg = None \<or> (\<forall>a \<in> set (accounts db). a_map_id a = M \<longrightarrow> a_login a \<noteq> lg)"
  shows "\<exists>db' r. addAccountToMap db M lg pw lb = Inr (db', r)"
  using assms by (auto simp: addAccountToMap_def insert_account_def Let_def)

lemma addAccountToMap_integrity:
  assumes "integrity db" and "addAccountToMap db M lg pw lb = Inr (db', r)"
  shows "integrity db'"
proof -
  note R = addAccountToMap_Inr [OF assms(2)]
  have "lg \<noteq> None \<Longrightarrow> (lg, M) \<notin> (\<lambda>a. (a_login a, a_map_id a)) ` {a \<in> set (accounts db). a_login a \<noteq> None}"
    using R(7) by auto
  then show ?thesis
    using assms(1) R(1,2,5,6) by (auto simp: integrity_def)
qed

lemma addAccountToMap_twice:
  assumes "addAccountToMap db M (Some L) pw lb = Inr (db', r)"
  shows "addAccountToMap db' M (Some L) pw' lb' =
           Inl (SqliteError ''UNIQUE constraint failed: accounts.login, accounts.map_id'')"
proof -
  let ?row = "\<lparr>a_id = lastInsertRowid r, a_name = js_or lb (Some L), a_map_id = M,
             a_data = None, a_login = Some L, a_password = pw, a_label = js_or lb None\<rparr>"
  have "?row \<in> set (accounts db')" using addAccountToMap_Inr(1) [OF assms] by simp
  then show ?thesis by (rule addAccountToMap_duplicate) simp_all
qed

text \<open>
  Claim C3, as the code has it. The unique index on \<^verbatim>\<open>(login, map_id)\<close> compares
  logins exactly, letter case included, and skips NULL logins. When map \<open>M\<close> holds an
  account with login \<open>L\<close>, adding login \<open>L\<close> to \<open>M\<close> again fails with the store's
  UNIQUE error. Adding a login \<open>L'\<close> to an existing map \<open>M'\<close> that holds no account with
  exactly that login succeeds (so \<open>L\<close> itself may go into another map, and a login that
  differs from \<open>L\<close> in case may go into \<open>M\<close>), after which the same add fails as a
  duplicate. An account with NULL login can be added to an existing map any number of
  times.
\<close>

theorem login_unique_per_map_exact:
  assumes "a \<in> set (accounts db)" and "a_login a = Some L" and "a_map_id a = M"
  shows "addAccountToMap db M (Some L) pw lb =
           Inl (SqliteError ''UNIQUE constraint failed: accounts.login, accounts.map_id'')
   \<and> ((\<exists>m \<in> set (maps db). m_id m = M') \<and>
        (\<forall>b \<in> set (accounts db). a_map_id b = M' \<longrightarrow> a_login b \<noteq> Some L') \<longrightarrow>
        (\<exists>db' r. addAccountToMap db M' (Some L') pw lb = Inr (db', r) \<and>
           addAccountToMap db' M' (Some L') pw lb =
             Inl (SqliteError ''UNIQUE constraint failed: accounts.login, accounts.map_id'')))
   \<and> ((\<exists>m \<in> set (maps db). m_id m = M') \<longrightarrow>
        (\<exists>db' r. addAccountToMap db M' None pw lb = Inr (db', r) \<and>
           (\<exists>db'' r'. addAccountToMap db' M' None pw lb = Inr (db'', r'))))"
proof (intro conjI impI)
  show "addAccountToMap db M (Some L) pw lb =
           Inl (SqliteError ''UNIQUE constraint failed: accounts.login, accounts.map_id'')"
    using assms by (rule addAccountToMap_duplicate)
next
  assume h: "(\<exists>m \<in> set (maps db). m_id m = M') \<and>
        (\<forall>b \<in> set (accounts db). a_map_id b = M' \<longrightarrow> a_login b \<noteq> Some L')"
  then obtain db' r where ok: "addAccountToMap db M' (Some L') pw lb = Inr (db', r)"
    using addAccountToMap_succeeds [of _ db M' "Some L'" pw lb] by blast
  from addAccountToMap_twice [OF ok] ok
  show "\<exists>db' r. addAccountToMap db M' (Some L') pw lb = Inr (db', r) \<and>
           addAccountToMap db' M' (Some L') pw lb =
             Inl (SqliteError ''UNIQUE constraint failed: accounts.login, accounts.map_id'')"
    by blast
next
  assume h: "\<exists>m \<in> set (maps db). m_id m = M'"
  then obtain db' r where ok: "addAccountToMap db M' None pw lb = Inr (db', r)"
    using addAccountToMap_succeeds [of _ db M' None pw lb] by blast
  have "maps db' = maps db" by (rule addAccountToMap_Inr(2) [OF ok])
  with h have "\<exists>m \<in> set (maps db'). m_id m = M'" by simp
  then obtain db'' r' where "addAccountToMap db' M' None pw lb = Inr (db'', r')"
    using addAccountToMap_succeeds [of _ db' M' None pw lb] by blast
  with ok show "\<exists>db' r. addAccountToMap db M' None pw lb = Inr (db', r) \<and>
           (\<exists>db'' r'. addAccountToMap db' M' None pw lb = Inr (db'', r'))"
    by blast
qed

text \<open>
  The claim says that a login equal up to letter case is refused. In the store that holds
  \<open>user\<close> in map 1, adding \<open>USER\<close> to map 1 succeeds and both rows are kept.
\<close>

theorem login_case_counterexample:
  "nocase ''USER'' = nocase ''user''
   \<and> addAccountToMap one_map_db 1 (Some ''user'') (Some ''pw'') None =
       Inr (user_db, \<lparr>changes = 1, lastInsertRowid = 1\<rparr>)
   \<and> addAccountToMap user_db 1 (Some ''USER'') (Some ''pw2'') None =
       Inr (user_db\<lparr>accounts := accounts user_db @
              [\<lparr>a_id = 2, a_name = Some ''USER'', a_map_id = 1, a_data = None,
                a_login = Some ''USER'', a_password = Some ''pw2'', a_label = None\<rparr>],
              accounts_seq := 2\<rparr>,
            \<lparr>changes = 1, lastInsertRowid = 2\<rparr>)"
  by (simp add: store_eval one_map_db_def user_db_def nocase_def ascii_lower_def)

theorem login_unique_per_map_exact_witness:
  "user_row \<in> set (accounts two_map_db) \<and> a_login user_row = Some ''user'' \<and>
   a_map_id user_row = 1
   \<and> (\<exists>m \<in> set (maps two_map_db). m_id m = 2)
   \<and> filter (\<lambda>b. a_map_id b = 2 \<and> a_login b = Some ''user'') (accounts two_map_db) = []
   \<and> addAccountToMap two_map_db 1 (Some ''user'') (Some ''other'') None =
        Inl (SqliteError ''UNIQUE constraint failed: accounts.login, accounts.map_id'')
   \<and> (\<exists>db' r. addAccountToMap two_map_db 2 (Some ''user'') (Some ''other'') None = Inr (db', r))
   \<and> (\<exists>db' r. addAccountToMap two_map_db 2 None (Some ''other'') None = Inr (db', r) \<and>
         (\<exists>db'' r'. addAccountToMap db' 2 None (Some ''other'') None = Inr (db'', r')))"
proof -
  have a: "user_row \<in> set (accounts two_map_db)" by (simp add: two_map_db_def)
  have b: "a_login user_row = Some ''user''" by (simp add: user_row_def)
  have c: "a_map_id user_row = 1" by (simp add: user_row_def)
  have d: "\<exists>m \<in> set (maps two_map_db). m_id m = 2" by (simp add: two_map_db_def)
  have e: "\<forall>b \<in> set (accounts two_map_db). a_map_id b = 2 \<longrightarrow> a_login b \<noteq> Some ''user''"
    by (simp add: two_map_db_def user_row_def)
  have f: "filter (\<lambda>b. a_map_id b = 2 \<and> a_login b = Some ''user'') (accounts two_map_db) = []"
    by (simp add: two_map_db_def user_row_def)
  from login_unique_per_map_exact [OF a b c, of "Some ''other''" None 2 "''user''"] d e
  show ?thesis using a b c f by blast
qed

section \<open>Deleting a map\<close>

lemma deleteMapById_maps:
  "deleteMapById db M = (db', n) \<Longrightarrow> maps db' = filter (\<lambda>m. m_id m \<noteq> M) (maps db)"
  by (auto simp: deleteMapById_def delete_map_def Let_def)

lemma deleteMapById_accounts_present:
  assumes "deleteMapById db M = (db', n)" and "\<exists>m \<in> set (maps db). m_id m = M"
  shows "accounts db' = filter (\<lambda>a. a_map_id a \<noteq> M) (accounts db)"
proof -
  have "filter (\<lambda>m. m_id m = M) (maps db) \<noteq> []"
    using assms(2) by (auto simp: filter_empty_conv)
  then show ?thesis using assms(1) by (auto simp: deleteMapById_def delete_map_def Let_def)
qed

lemma deleteMapById_accounts_absent:
  assumes "deleteMapById db M = (db', n)" and "\<forall>m \<in> set (maps db). m_id m \<noteq> M"
  shows "accounts db' = accounts db" and "maps db' = maps db" and "n = 0"
proof -
  have "filter (\<lambda>m. m_id m = M) (maps db) = []"
    using assms(2) by (auto simp: filter_empty_conv)
  moreover have "filter (\<lambda>m. m_id m \<noteq> M) (maps db) = maps db"
    using assms(2) by (auto simp: filter_id_conv)
  ultimately show "accounts db' = accounts db" and "maps db' = maps db" and "n = 0"
    using assms(1) by (auto simp: deleteMapById_def delete_map_def Let_def)
qed

lemma deleteMapById_accounts:
  assumes "integrity db" and "deleteMapById db M = (db', n)"
  shows "accounts db' = filter (\<lambda>a. a_map_id a \<noteq> M) (accounts db)"
proof (cases "\<exists>m \<in> set (maps db). m_id m = M")
  case True
  then show ?thesis using assms(2) by (simp add: deleteMapById_accounts_present)
next
  case False
  then have none: "\<forall>m \<in> set (maps db). m_id m \<noteq> M" by simp
  with assms(1) have "\<forall>a \<in> set (accounts db). a_map_id a \<noteq> M"
    by (fastforce simp: integrity_def)
  then have "filter (\<lambda>a. a_map_id a \<noteq> M) (accounts db) = accounts db"
    by (auto simp: filter_id_conv)
  then show ?thesis using deleteMapById_accounts_absent(1) [OF assms(2) none] by simp
qed

lemma filter_key_unique:
  "distinct (map f xs) \<Longrightarrow> x \<in> set xs \<Longrightarrow> filter (\<lambda>y. f y = f x) xs = [x]"
proof (induction xs)
  case Nil
  then show ?case by simp
next
  case (Cons y ys)
  show ?case
  proof (cases "x = y")
    case True
    have "\<forall>z \<in> set ys. f z \<noteq> f y" using Cons.prems(1) by (auto simp: image_iff)
    then have "filter (\<lambda>z. f z = f y) ys = []" by (auto simp: filter_empty_conv)
    then show ?thesis using True by simp
  next
    case False
    with Cons.prems have "x \<in> set ys" "f y \<noteq> f x" by (auto simp: image_iff)
    then show ?thesis using Cons by simp
  qed
qed

lemma deleteMapById_changes:
  assumes "integrity db" and "deleteMapById db M = (db', n)"
    and "m \<in> set (maps db)" and "m_id m = M"
  shows "n = 1"
proof -
  have "distinct (map m_id (maps db))" using assms(1) by (simp add: integrity_def)
  then have "filter (\<lambda>y. m_id y = m_id m) (maps db) = [m]"
    using assms(3) by (rule filter_key_unique)
  then show ?thesis using assms(2,4) by (auto simp: deleteMapById_def delete_map_def Let_def)
qed

lemma distinct_map_filter_sub:
  "distinct (map f (filter P xs)) \<Longrightarrow> distinct (map f (filter P (filter Q xs)))"
  by (induction xs) auto

lemma deleteMapById_integrity:
  assumes "integrity db" and "deleteMapById db M = (db', n)"
  shows "integrity db'"
proof -
  note A = deleteMapById_accounts [OF assms] and B = deleteMapById_maps [OF assms(2)]
  have "distinct (map (\<lambda>a. (a_login a, a_map_id a))
                 (filter (\<lambda>a. a_login a \<noteq> None) (filter (\<lambda>a. a_map_id a \<noteq> M) (accounts db))))"
    using assms(1) by (intro distinct_map_filter_sub) (simp add: integrity_def)
  moreover have "\<forall>a \<in> set (filter (\<lambda>a. a_map_id a \<noteq> M) (accounts db)).
           \<exists>m \<in> set (filter (\<lambda>m. m_id m \<noteq> M) (maps db)). m_id m = a_map_id a"
    using assms(1) by (fastforce simp: integrity_def)
  ultimately show ?thesis
    using assms(1) unfolding integrity_def A B by (simp add: distinct_map_filter)
qed

lemma find_None_iff2: "find P xs = None \<longleftrightarrow> (\<forall>x \<in> set xs. \<not> P x)"
  by (induction xs) auto

lemma getAccountById_None: "getAccountById db i = None \<longleftrightarrow> (\<forall>a \<in> set (accounts db). a_id a \<noteq> i)"
  by (simp add: getAccountById_def find_None_iff2)

lemma getMapById_None: "getMapById db i = None \<longleftrightarrow> (\<forall>m \<in> set (maps db). m_id m \<noteq> i)"
  by (simp add: getMapById_def find_None_iff2)

lemma find_filter_other:
  "find P (filter Q xs) = find P xs" if "\<forall>x \<in> set xs. P x \<longrightarrow> Q x"
  using that by (induction xs) auto

text \<open>
  Claim C6. In a store that satisfies its declared constraints, one call of
  \<^const>\<open>deleteMapById\<close> on \<open>M\<close> returns a store in which no account that belonged to
  \<open>M\<close> can be retrieved by \<^const>\<open>getAccountById\<close>, no account row references \<open>M\<close>,
  and the map itself is gone; the accounts of the other maps are retrieved as before, and
  the constraints still hold, so no account references a missing map.
\<close>

theorem deleteMapById_cascades:
  assumes "integrity db" and "deleteMapById db M = (db', n)"
  shows "(\<forall>a \<in> set (accounts db). a_map_id a = M \<longrightarrow> getAccountById db' (a_id a) = None)
   \<and> (\<forall>a \<in> set (accounts db'). a_map_id a \<noteq> M)
   \<and> getMapById db' M = None
   \<and> (\<forall>a \<in> set (accounts db). a_map_id a \<noteq> M \<longrightarrow>
         getAccountById db' (a_id a) = getAccountById db (a_id a))
   \<and> integrity db'"
proof (intro conjI ballI impI)
  note A = deleteMapById_accounts [OF assms] and B = deleteMapById_maps [OF assms(2)]
  have pk: "distinct (map a_id (accounts db))" using assms(1) by (simp add: integrity_def)
  { fix a assume a: "a \<in> set (accounts db)" "a_map_id a = M"
    have "\<forall>b \<in> set (accounts db'). a_id b \<noteq> a_id a"
    proof
      fix b assume "b \<in> set (accounts db')"
      then have b: "b \<in> set (accounts db)" "a_map_id b \<noteq> M" by (simp_all add: A)
      show "a_id b \<noteq> a_id a"
      proof
        assume "a_id b = a_id a"
        with pk a(1) b(1) have "b = a" by (meson distinct_map inj_onD)
        with a(2) b(2) show False by simp
      qed
    qed
    then show "getAccountById db' (a_id a) = None" by (simp add: getAccountById_None) }
  { fix a assume "a \<in> set (accounts db')"
    then show "a_map_id a \<noteq> M" by (simp add: A) }
  show "getMapById db' M = None" by (simp add: getMapById_None B)
  { fix a assume a: "a \<in> set (accounts db)" "a_map_id a \<noteq> M"
    have "\<forall>x \<in> set (accounts db). a_id x = a_id a \<longrightarrow> a_map_id x \<noteq> M"
    proof (intro ballI impI)
      fix x assume "x \<in> set (accounts db)" "a_id x = a_id a"
      with pk a(1) have "x = a" by (meson distinct_map inj_onD)
      with a(2) show "a_map_id x \<noteq> M" by simp
    qed
    then show "getAccountById db' (a_id a) = getAccountById db (a_id a)"
      unfolding getAccountById_def A by (simp add: find_filter_other) }
  show "integrity db'" using assms by (rule deleteMapById_integrity)
qed

lemma bulk_line_integrity:
  assumes "integrity db" and "bulk_line mapId l (db, res) = (db', res')"
  shows "integrity db'"
proof (cases "parsePair (Some l)")
  case (Inl e)
  with assms show ?thesis by (auto simp: bulk_line_def split: if_splits)
next
  case (Inr lp)
  obtain lg pw where lp: "lp = (lg, pw)" by (cases lp)
  show ?thesis
  proof (cases "addAccountToMap db mapId (Some lg) (Some pw) None")
    case (Inl e)
    with assms Inr lp show ?thesis by (auto simp: bulk_line_def split: if_splits)
  next
    case R: (Inr dr)
    obtain d r where dr: "dr = (d, r)" by (cases dr)
    from assms(2) Inr lp R dr have "db' = d" by (auto simp: bulk_line_def)
    moreover from R dr have "addAccountToMap db mapId (Some lg) (Some pw) None = Inr (d, r)"
      by simp
    note addAccountToMap_integrity [OF assms(1) this]
    ultimately show ?thesis by simp
  qed
qed

lemma bulk_fold_integrity:
  "integrity db \<Longrightarrow> fold (bulk_line mapId) ls (db, res) = (db', res') \<Longrightarrow> integrity db'"
proof (induction ls arbitrary: db res)
  case Nil
  then show ?case by simp
next
  case (Cons l ls)
  obtain d1 r1 where s1: "bulk_line mapId l (db, res) = (d1, r1)"
    by (cases "bulk_line mapId l (db, res)")
  with Cons.prems(2) have "fold (bulk_line mapId) ls (d1, r1) = (db', res')" by simp
  moreover have "integrity d1" using Cons.prems(1) s1 by (rule bulk_line_integrity)
  ultimately show ?case by (rule Cons.IH [rotated])
qed

lemma bulkAddPairs_integrity:
  "integrity db \<Longrightarrow> bulkAddPairs db mapId pairsText = (db', res) \<Longrightarrow> integrity db'"
  by (auto simp: bulkAddPairs_def Let_def intro: bulk_fold_integrity)

lemmas integrity_eval = integrity_def nocase_def ascii_lower_def

lemma integrity_shared_db: "integrity shared_db"
  by (simp add: integrity_eval shared_db_def user_row_def)

lemma delete_map_1:
  "deleteMapById shared_db 1 = (shared_db_without_1, 1)"
  by (simp add: deleteMapById_def delete_map_def shared_db_def shared_db_without_1_def user_row_def)

theorem deleteMapById_cascades_witness:
  "integrity shared_db \<and> deleteMapById shared_db 1 = (shared_db_without_1, 1)
   \<and> user_row \<in> set (accounts shared_db) \<and> a_map_id user_row = 1
   \<and> getAccountById shared_db_without_1 (a_id user_row) = None
   \<and> getMapById shared_db_without_1 1 = None
   \<and> integrity shared_db_without_1"
proof -
  have a: "user_row \<in> set (accounts shared_db)" by (simp add: shared_db_def)
  have b: "a_map_id user_row = 1" by (simp add: user_row_def)
  from deleteMapById_cascades [OF integrity_shared_db delete_map_1] a b
  show ?thesis using integrity_shared_db delete_map_1 by blast
qed

section \<open>Bulk import of blank text\<close>

lemma trim_blank: "\<forall>c \<in> set l. isWhiteSpace c \<Longrightarrow> trim l = []"
proof -
  assume "\<forall>c \<in> set l. isWhiteSpace c"
  then have "dropWhile isWhiteSpace l = []" by simp
  then show ?thesis by (simp only: trim_def rev.simps dropWhile.simps)
qed

lemma split_lines_not_Nil: "split_lines s \<noteq> []"
  by (induction s rule: split_lines.induct) (auto split: list.splits)

lemma split_lines_chars:
  "l \<in> set (split_lines s) \<Longrightarrow> set l \<subseteq> set s"
proof (induction s arbitrary: l rule: split_lines.induct)
  case 1
  then show ?case by simp
next
  case (2 c cs)
  show ?case
  proof (cases "c = CHR 0x0A")
    case True
    with 2 show ?thesis by auto
  next
    case nl: False
    show ?thesis
    proof (cases "c = CHR 0x0D \<and> cs \<noteq> [] \<and> hd cs = CHR 0x0A")
      case True
      with nl "2.prems" have "l = [] \<or> l \<in> set (split_lines (tl cs))" by auto
      then show ?thesis
      proof
        assume "l = []" then show ?thesis by simp
      next
        assume "l \<in> set (split_lines (tl cs))"
        with "2.IH"(2) nl True have "set l \<subseteq> set (tl cs)" by blast
        moreover have "set (tl cs) \<subseteq> set cs" using True by (cases cs) auto
        ultimately show ?thesis by auto
      qed
    next
      case False
      obtain x xs where sp: "split_lines cs = x # xs"
        using split_lines_not_Nil [of cs] by (cases "split_lines cs") auto
      with nl False "2.prems" have "l = c # x \<or> l \<in> set xs" by auto
      then show ?thesis
      proof
        assume "l = c # x"
        moreover have "set x \<subseteq> set cs" using "2.IH"(3) [of x] nl False sp by auto
        ultimately show ?thesis by auto
      next
        assume "l \<in> set xs"
        then have "set l \<subseteq> set cs" using "2.IH"(3) [of l] nl False sp by auto
        then show ?thesis by auto
      qed
    qed
  qed
qed

lemma bulkAddPairs_blank_lines:
  assumes "\<forall>l \<in> set (split_lines (or_empty pairsText)). trim l = []"
  shows "bulkAddPairs db mapId pairsText = (db, no_results)"
proof -
  have "filter (\<lambda>l. l \<noteq> []) (map trim (split_lines (or_empty pairsText))) = []"
    using assms by (auto simp: filter_empty_conv)
  then show ?thesis by (simp add: bulkAddPairs_def no_results_def)
qed

lemma whitespace_blank_lines:
  assumes "\<forall>c \<in> set s. isWhiteSpace c"
  shows "\<forall>l \<in> set (split_lines s). trim l = []"
proof
  fix l assume "l \<in> set (split_lines s)"
  then have "set l \<subseteq> set s" by (rule split_lines_chars)
  with assms have "\<forall>c \<in> set l. isWhiteSpace c" by auto
  then show "trim l = []" by (rule trim_blank)
qed

text \<open>
  Claim C10. When the text holds no non-blank line, that is when it is \<^verbatim>\<open>null\<close>, the
  empty string, made of whitespace and line breaks only, or more generally when every
  piece that \<^const>\<open>split_lines\<close> yields trims to the empty string,
  \<^const>\<open>bulkAddPairs\<close> returns the summary with no addition, no duplicate and no error,
  and the store it returns is the store it was given, whatever the map id.
\<close>

theorem bulkAddPairs_nothing_to_import:
  "bulkAddPairs db mapId None = (db, \<lparr>added = 0, duplicates = 0, errors = []\<rparr>)
   \<and> bulkAddPairs db mapId (Some []) = (db, \<lparr>added = 0, duplicates = 0, errors = []\<rparr>)
   \<and> ((\<forall>c \<in> set text. isWhiteSpace c) \<longrightarrow>
        bulkAddPairs db mapId (Some text) = (db, \<lparr>added = 0, duplicates = 0, errors = []\<rparr>))
   \<and> ((\<forall>l \<in> set (split_lines text). trim l = []) \<longrightarrow>
        bulkAddPairs db mapId (Some text) = (db, \<lparr>added = 0, duplicates = 0, errors = []\<rparr>))"
proof (intro conjI impI)
  show "bulkAddPairs db mapId None = (db, \<lparr>added = 0, duplicates = 0, errors = []\<rparr>)"
    using bulkAddPairs_blank_lines [of None db mapId]
    by (simp add: or_empty_def trim_def no_results_def)
  show "bulkAddPairs db mapId (Some []) = (db, \<lparr>added = 0, duplicates = 0, errors = []\<rparr>)"
    using bulkAddPairs_blank_lines [of "Some []" db mapId]
    by (simp add: or_empty_def trim_def no_results_def)
next
  assume "\<forall>c \<in> set text. isWhiteSpace c"
  then have "\<forall>l \<in> set (split_lines (or_empty (Some text))). trim l = []"
    using whitespace_blank_lines by (simp add: or_empty_def)
  then show "bulkAddPairs db mapId (Some text) = (db, \<lparr>added = 0, duplicates = 0, errors = []\<rparr>)"
    using bulkAddPairs_blank_lines [of "Some text" db mapId] by (simp add: no_results_def)
next
  assume "\<forall>l \<in> set (split_lines text). trim l = []"
  then have "\<forall>l \<in> set (split_lines (or_empty (Some text))). trim l = []"
    by (simp add: or_empty_def)
  then show "bulkAddPairs db mapId (Some text) = (db, \<lparr>added = 0, duplicates = 0, errors = []\<rparr>)"
    using bulkAddPairs_blank_lines [of "Some text" db mapId] by (simp add: no_results_def)
qed

lemma blank_text_ws: "\<forall>c \<in> set blank_text. isWhiteSpace c"
  by (simp add: blank_text_def isWhiteSpace_def)

lemma blank_text_lines: "\<forall>l \<in> set (split_lines blank_text). trim l = []"
  by (simp add: blank_text_def trim_def isWhiteSpace_def)

theorem bulkAddPairs_nothing_to_import_witness:
  "list_all isWhiteSpace blank_text
   \<and> map trim (split_lines blank_text) = [[], [], []]
   \<and> bulkAddPairs shared_db 7 (Some blank_text) =
       (shared_db, \<lparr>added = 0, duplicates = 0, errors = []\<rparr>)"
proof -
  have "list_all isWhiteSpace blank_text"
    by (simp add: blank_text_def isWhiteSpace_def)
  moreover have "map trim (split_lines blank_text) = [[], [], []]"
    by (simp add: blank_text_def trim_def isWhiteSpace_def)
  ultimately show ?thesis
    using blank_text_ws bulkAddPairs_nothing_to_import [of shared_db 7 blank_text]
    by blast
qed

section \<open>Bulk import line by line\<close>

lemma bulk_line_added:
  assumes "parsePair (Some l) = Inr (lg, pw)"
    and "addAccountToMap db mapId (Some lg) (Some pw) None = Inr (db', r)"
  shows "bulk_line mapId l (db, res) = (db', res\<lparr>added := added res + 1\<rparr>)"
  using assms by (simp add: bulk_line_def)

lemma bulk_line_constraint:
  assumes "parsePair (Some l) = Inr (lg, pw)"
    and "addAccountToMap db mapId (Some lg) (Some pw) None = Inl (SqliteError msg)"
    and "js_includes msg ''UNIQUE'' \<or> js_includes msg ''constraint''"
  shows "bulk_line mapId l (db, res) = (db, res\<lparr>duplicates := duplicates res + 1\<rparr>)"
  using assms by (auto simp: bulk_line_def)

lemma unique_message:
  "js_includes ''UNIQUE constraint failed: accounts.login, accounts.map_id'' ''UNIQUE''"
  by simp

lemma foreign_key_message:
  "\<not> js_includes ''FOREIGN KEY constraint failed'' ''UNIQUE''"
  "js_includes ''FOREIGN KEY constraint failed'' ''constraint''"
  by simp_all

lemma parse_messages_plain:
  "\<not> js_includes ''Use format USERNAME_OR_EMAIL:PASSWORD'' ''UNIQUE''"
  "\<not> js_includes ''Use format USERNAME_OR_EMAIL:PASSWORD'' ''constraint''"
  "\<not> js_includes ''Both login and password are required'' ''UNIQUE''"
  "\<not> js_includes ''Both login and password are required'' ''constraint''"
  by simp_all

lemma bulk_line_malformed:
  assumes "parsePair (Some l) = Inl e"
  shows "bulk_line mapId l (db, res) =
           (db, res\<lparr>errors := errors res @ [\<lparr>line = l, error = message e\<rparr>]\<rparr>)"
  using assms parsePair_messages [OF assms] parse_messages_plain
  by (auto simp: bulk_line_def)

lemma four_lines_split:
  "filter (\<lambda>l. l \<noteq> []) (map trim (split_lines (or_empty (Some four_lines)))) =
     [''a:1'', ''a:1'', ''b:2'', ''malformed'']"
  by (simp add: four_lines_def or_empty_def trim_def isWhiteSpace_def)

lemma parsePair_a1: "parsePair (Some ''a:1'') = Inr (''a'', ''1'')"
  by (simp add: parsePair_eval)

lemma parsePair_b2: "parsePair (Some ''b:2'') = Inr (''b'', ''2'')"
  by (simp add: parsePair_eval)

lemma parsePair_malformed:
  "parsePair (Some ''malformed'') = Inl (Error ''Use format USERNAME_OR_EMAIL:PASSWORD'')"
  by (simp add: parsePair_eval)

lemma bulkAddPairs_four_lines:
  assumes ex: "\<exists>m \<in> set (maps db). m_id m = mapId"
    and empty: "\<forall>a \<in> set (accounts db). a_map_id a \<noteq> mapId"
  shows "\<exists>db' i j. bulkAddPairs db mapId (Some four_lines) =
       (db', \<lparr>added = 2, duplicates = 1,
              errors = [\<lparr>line = ''malformed'',
                         error = ''Use format USERNAME_OR_EMAIL:PASSWORD''\<rparr>]\<rparr>)
     \<and> accounts db' = accounts db @
           [\<lparr>a_id = i, a_name = Some ''a'', a_map_id = mapId, a_data = None,
             a_login = Some ''a'', a_password = Some ''1'', a_label = None\<rparr>,
            \<lparr>a_id = j, a_name = Some ''b'', a_map_id = mapId, a_data = None,
             a_login = Some ''b'', a_password = Some ''2'', a_label = None\<rparr>]
     \<and> maps db' = maps db"
proof -
  let ?e = "\<lparr>line = ''malformed'', error = ''Use format USERNAME_OR_EMAIL:PASSWORD''\<rparr>"
  obtain m where m: "m \<in> set (maps db)" "m_id m = mapId" using ex by blast
  have "Some ''a'' = None \<or>
        (\<forall>a \<in> set (accounts db). a_map_id a = mapId \<longrightarrow> a_login a \<noteq> Some ''a'')"
    using empty by simp
  from addAccountToMap_succeeds [OF m this]
  obtain d1 r1 where a1: "addAccountToMap db mapId (Some ''a'') (Some ''1'') None = Inr (d1, r1)"
    by blast
  note A = addAccountToMap_Inr [OF a1]
  have s1: "bulk_line mapId ''a:1'' (db, \<lparr>added = 0, duplicates = 0, errors = []\<rparr>) =
      (d1, \<lparr>added = 1, duplicates = 0, errors = []\<rparr>)"
    using bulk_line_added [OF parsePair_a1 a1, of "\<lparr>added = 0, duplicates = 0, errors = []\<rparr>"]
    by simp
  have a2: "addAccountToMap d1 mapId (Some ''a'') (Some ''1'') None =
      Inl (SqliteError ''UNIQUE constraint failed: accounts.login, accounts.map_id'')"
    by (rule addAccountToMap_twice [OF a1])
  have s2: "bulk_line mapId ''a:1'' (d1, \<lparr>added = 1, duplicates = 0, errors = []\<rparr>) =
      (d1, \<lparr>added = 1, duplicates = 1, errors = []\<rparr>)"
    using bulk_line_constraint [OF parsePair_a1 a2,
        of "\<lparr>added = 1, duplicates = 0, errors = []\<rparr>"] unique_message
    by simp
  have m1: "m \<in> set (maps d1)" using m(1) A(2) by simp
  have "Some ''b'' = None \<or>
        (\<forall>a \<in> set (accounts d1). a_map_id a = mapId \<longrightarrow> a_login a \<noteq> Some ''b'')"
    using empty A(1) by (simp add: js_or_def)
  from addAccountToMap_succeeds [OF m1 m(2) this]
  obtain d2 r2 where a3: "addAccountToMap d1 mapId (Some ''b'') (Some ''2'') None = Inr (d2, r2)"
    by blast
  note B = addAccountToMap_Inr [OF a3]
  have s3: "bulk_line mapId ''b:2'' (d1, \<lparr>added = 1, duplicates = 1, errors = []\<rparr>) =
      (d2, \<lparr>added = 2, duplicates = 1, errors = []\<rparr>)"
    using bulk_line_added [OF parsePair_b2 a3, of "\<lparr>added = 1, duplicates = 1, errors = []\<rparr>"]
    by simp
  have s4: "bulk_line mapId ''malformed'' (d2, \<lparr>added = 2, duplicates = 1, errors = []\<rparr>) =
      (d2, \<lparr>added = 2, duplicates = 1, errors = [?e]\<rparr>)"
    using bulk_line_malformed [OF parsePair_malformed,
        of mapId d2 "\<lparr>added = 2, duplicates = 1, errors = []\<rparr>"]
    by simp
  have run: "bulkAddPairs db mapId (Some four_lines) =
      (d2, \<lparr>added = 2, duplicates = 1, errors = [?e]\<rparr>)"
    unfolding bulkAddPairs_def Let_def four_lines_split
    by (simp only: fold_simps s1 s2 s3 s4)
  have "accounts d2 = accounts db @
           [\<lparr>a_id = lastInsertRowid r1, a_name = Some ''a'', a_map_id = mapId, a_data = None,
             a_login = Some ''a'', a_password = Some ''1'', a_label = None\<rparr>,
            \<lparr>a_id = lastInsertRowid r2, a_name = Some ''b'', a_map_id = mapId, a_data = None,
             a_login = Some ''b'', a_password = Some ''2'', a_label = None\<rparr>]"
    using A(1) B(1) by (simp add: js_or_def)
  moreover have "maps d2 = maps db" using A(2) B(2) by simp
  ultimately show ?thesis using run by blast
qed

text \<open>
  Claim C1. For every store and every map of it that holds no account, importing the
  four lines \<open>a:1\<close>, \<open>a:1\<close>, \<open>b:2\<close>, \<open>malformed\<close> returns the summary with two added,
  one duplicate and the single error entry for the line \<open>malformed\<close>: the first
  \<open>a:1\<close> is added, the second is a duplicate, \<open>b:2\<close> is added and \<open>malformed\<close> is
  recorded without stopping the batch. The store returned holds the two new accounts
  \<open>a\<close> and \<open>b\<close>, in this order, after the accounts it held before.
\<close>

theorem bulkAddPairs_classifies_in_order:
  assumes "\<exists>m \<in> set (maps db). m_id m = mapId"
    and "\<forall>a \<in> set (accounts db). a_map_id a \<noteq> mapId"
  shows "\<exists>db' i j. bulkAddPairs db mapId (Some four_lines) =
       (db', \<lparr>added = 2, duplicates = 1,
              errors = [\<lparr>line = ''malformed'',
                         error = ''Use format USERNAME_OR_EMAIL:PASSWORD''\<rparr>]\<rparr>)
     \<and> accounts db' = accounts db @
           [\<lparr>a_id = i, a_name = Some ''a'', a_map_id = mapId, a_data = None,
             a_login = Some ''a'', a_password = Some ''1'', a_label = None\<rparr>,
            \<lparr>a_id = j, a_name = Some ''b'', a_map_id = mapId, a_data = None,
             a_login = Some ''b'', a_password = Some ''2'', a_label = None\<rparr>]
     \<and> maps db' = maps db"
  using assms by (rule bulkAddPairs_four_lines)

lemma two_map_db_2_exists: "\<exists>m \<in> set (maps two_map_db). m_id m = 2"
  by (simp add: two_map_db_def)

lemma two_map_db_2_empty: "\<forall>a \<in> set (accounts two_map_db). a_map_id a \<noteq> 2"
  by (simp add: two_map_db_def user_row_def)

theorem bulkAddPairs_classifies_in_order_witness:
  "(\<exists>m \<in> set (maps two_map_db). m_id m = 2)
   \<and> filter (\<lambda>a. a_map_id a = 2) (accounts two_map_db) = []
   \<and> (\<exists>db'. bulkAddPairs two_map_db 2 (Some four_lines) =
       (db', \<lparr>added = 2, duplicates = 1,
              errors = [\<lparr>line = ''malformed'',
                         error = ''Use format USERNAME_OR_EMAIL:PASSWORD''\<rparr>]\<rparr>))"
proof -
  have "filter (\<lambda>a. a_map_id a = 2) (accounts two_map_db) = []"
    by (simp add: two_map_db_def user_row_def)
  then show ?thesis
    using two_map_db_2_exists
      bulkAddPairs_classifies_in_order [OF two_map_db_2_exists two_map_db_2_empty]
    by blast
qed

text \<open>
  Claim C2 says that only a violation of the \<^verbatim>\<open>(login, map_id)\<close> uniqueness counts as
  a duplicate and that a foreign-key violation goes to the error list. The
  \<^verbatim>\<open>catch\<close> of \<^const>\<open>bulk_line\<close> also tests the message for \<open>constraint\<close>, which
  \<open>FOREIGN KEY constraint failed\<close> contains: importing \<open>a:1\<close> into map 2 of a store
  whose only map is 1 fails on the foreign key, and the line is counted as a duplicate
  with the error list left empty.
\<close>

theorem bulk_foreign_key_counted_as_duplicate:
  "getMapById one_map_db 2 = None
   \<and> addAccountToMap one_map_db 2 (Some ''a'') (Some ''1'') None =
       Inl (SqliteError ''FOREIGN KEY constraint failed'')
   \<and> bulkAddPairs one_map_db 2 (Some ''a:1'') =
       (one_map_db, \<lparr>added = 0, duplicates = 1, errors = []\<rparr>)"
proof -
  have a: "addAccountToMap one_map_db 2 (Some ''a'') (Some ''1'') None =
       Inl (SqliteError ''FOREIGN KEY constraint failed'')"
    by (simp add: store_eval one_map_db_def)
  have "split_lines ''a:1'' = [''a:1'']" by simp
  moreover have "trim ''a:1'' = ''a:1''" by (simp add: trim_def isWhiteSpace_def)
  ultimately have "bulkAddPairs one_map_db 2 (Some ''a:1'') =
      bulk_line 2 ''a:1'' (one_map_db, \<lparr>added = 0, duplicates = 0, errors = []\<rparr>)"
    by (simp add: bulkAddPairs_def or_empty_def)
  also have "\<dots> = (one_map_db, \<lparr>added = 0, duplicates = 1, errors = []\<rparr>)"
    using bulk_line_constraint [OF parsePair_a1 a, of "\<lparr>added = 0, duplicates = 0, errors = []\<rparr>"]
      foreign_key_message by simp
  finally show ?thesis using a by (simp add: getMapById_def one_map_db_def)
qed

section \<open>Listing the accounts of a map\<close>

lemma listAccountsByMapId_alt:
  "listAccountsByMapId db mapId limit =
     (let ordered = sort_key l_label (map listing_of (filter (\<lambda>a. a_map_id a = mapId) (accounts db)))
      in if limit_of limit < 0 then ordered else take (nat (limit_of limit)) ordered)"
  by (simp add: listAccountsByMapId_def Let_def)

lemma listAccountsByMapId_sorted: "sorted (map l_label (listAccountsByMapId db mapId limit))"
proof -
  let ?o = "sort_key l_label (map listing_of (filter (\<lambda>a. a_map_id a = mapId) (accounts db)))"
  have s: "sorted (map l_label ?o)" by (rule sorted_sort_key)
  then have "sorted (take (nat (limit_of limit)) (map l_label ?o))" by (rule sorted_wrt_take)
  then have "sorted (map l_label (take (nat (limit_of limit)) ?o))" by (simp add: take_map)
  with s show ?thesis by (simp add: listAccountsByMapId_alt Let_def)
qed

lemma listAccountsByMapId_length:
  "length (listAccountsByMapId db mapId limit) =
     (if limit_of limit < 0 then length (filter (\<lambda>a. a_map_id a = mapId) (accounts db))
      else min (length (filter (\<lambda>a. a_map_id a = mapId) (accounts db))) (nat (limit_of limit)))"
  by (simp add: listAccountsByMapId_alt Let_def)

lemma listAccountsByMapId_subset:
  "set (listAccountsByMapId db mapId limit) \<subseteq>
     listing_of ` {a \<in> set (accounts db). a_map_id a = mapId}"
proof -
  let ?o = "sort_key l_label (map listing_of (filter (\<lambda>a. a_map_id a = mapId) (accounts db)))"
  have "set (take (nat (limit_of limit)) ?o) \<subseteq> set ?o" by (rule set_take_subset)
  moreover have "set ?o = listing_of ` {a \<in> set (accounts db). a_map_id a = mapId}" by auto
  ultimately show ?thesis by (auto simp: listAccountsByMapId_alt Let_def)
qed

lemma listAccountsByMapId_all:
  assumes "limit_of limit < 0 \<or>
           length (filter (\<lambda>a. a_map_id a = mapId) (accounts db)) \<le> nat (limit_of limit)"
  shows "listAccountsByMapId db mapId limit =
           sort_key l_label (map listing_of (filter (\<lambda>a. a_map_id a = mapId) (accounts db)))"
  using assms by (auto simp: listAccountsByMapId_alt Let_def)

lemma listAccountsByMapId_empty:
  assumes "\<forall>a \<in> set (accounts db). a_map_id a \<noteq> mapId"
  shows "listAccountsByMapId db mapId limit = []"
proof -
  have "filter (\<lambda>a. a_map_id a = mapId) (accounts db) = []"
    using assms by (auto simp: filter_empty_conv)
  then show ?thesis by (simp add: listAccountsByMapId_alt Let_def)
qed

lemma binary_order_examples:
  "Some ''C'' < Some ''b''" "Some ''B'' < Some ''a''" "Some ''a'' < Some ''ab''"
  "(None :: string option) < Some []" "\<not> nocase ''C'' \<le> nocase ''b''"
  by (simp_all add: nocase_def ascii_lower_def)

lemma mixed_case_db_imported:
  "bulkAddPairs one_map_db 1 (Some (''b:1'' @ [CHR 0x0A] @ ''C:2'')) =
     (mixed_case_db, \<lparr>added = 2, duplicates = 0, errors = []\<rparr>)"
  by (simp add: bulkAddPairs_def or_empty_def trim_def isWhiteSpace_def bulk_line_def
      parsePair_def slice_def slice_from_def js_index_def store_eval one_map_db_def mixed_case_db_def)

text \<open>
  The claim says that the order is case-insensitive. After importing \<open>b:1\<close> and
  \<open>C:2\<close> into a map, the listing has \<open>C\<close> before \<open>b\<close>, while \<open>c\<close> does not
  come before \<open>b\<close> once the case is folded.
\<close>

theorem listing_order_counterexample:
  "bulkAddPairs one_map_db 1 (Some (''b:1'' @ [CHR 0x0A] @ ''C:2'')) =
     (mixed_case_db, \<lparr>added = 2, duplicates = 0, errors = []\<rparr>)
   \<and> map l_label (listAccountsByMapId mixed_case_db 1 (Some 100)) = [Some ''C'', Some ''b'']
   \<and> \<not> nocase ''C'' \<le> nocase ''b''"
proof -
  have "map l_label (listAccountsByMapId mixed_case_db 1 (Some 100)) = [Some ''C'', Some ''b'']"
    by (simp add: listAccountsByMapId_def listing_of_def limit_of_def mixed_case_db_def
        one_map_db_def coalesce_def)
  then show ?thesis using mixed_case_db_imported binary_order_examples(5) by simp
qed

text \<open>
  Claim C4, as the code has it. \<^const>\<open>listAccountsByMapId\<close> returns rows of the given
  map only, each the projection \<^const>\<open>listing_of\<close> of an account of that map, in
  ascending order of the effective label under the BINARY collation: NULL first, then
  strings compared code unit by code unit, so that every capital letter sorts before
  every small one (\<open>C\<close> before \<open>b\<close>). It returns at most \<open>k\<close> rows for a limit
  \<open>k \<ge> 0\<close> and at most 250 when the limit is omitted; when the limit is negative or
  not smaller than the number of accounts of the map, it returns all of them. For a map
  without accounts the result is the empty list; the function has no failing case.
\<close>

theorem listAccountsByMapId_binary_order:
  "sorted (map l_label (listAccountsByMapId db mapId limit))
   \<and> set (listAccountsByMapId db mapId limit) \<subseteq>
       listing_of ` {a \<in> set (accounts db). a_map_id a = mapId}
   \<and> (0 \<le> k \<longrightarrow> length (listAccountsByMapId db mapId (Some k)) \<le> nat k)
   \<and> length (listAccountsByMapId db mapId None) \<le> 250
   \<and> (k < 0 \<or> length (filter (\<lambda>a. a_map_id a = mapId) (accounts db)) \<le> nat k \<longrightarrow>
        listAccountsByMapId db mapId (Some k) =
          sort_key l_label (map listing_of (filter (\<lambda>a. a_map_id a = mapId) (accounts db))))
   \<and> ((\<forall>a \<in> set (accounts db0). a_map_id a \<noteq> mapId0) \<longrightarrow>
        listAccountsByMapId db0 mapId0 limit0 = [])"
proof (intro conjI impI)
  show "sorted (map l_label (listAccountsByMapId db mapId limit))"
    by (rule listAccountsByMapId_sorted)
  show "set (listAccountsByMapId db mapId limit) \<subseteq>
       listing_of ` {a \<in> set (accounts db). a_map_id a = mapId}"
    by (rule listAccountsByMapId_subset)
  show "length (listAccountsByMapId db mapId None) \<le> 250"
    by (simp add: listAccountsByMapId_length limit_of_def)
next
  assume "0 \<le> k"
  then show "length (listAccountsByMapId db mapId (Some k)) \<le> nat k"
    by (simp add: listAccountsByMapId_length limit_of_def)
next
  assume "k < 0 \<or> length (filter (\<lambda>a. a_map_id a = mapId) (accounts db)) \<le> nat k"
  then show "listAccountsByMapId db mapId (Some k) =
          sort_key l_label (map listing_of (filter (\<lambda>a. a_map_id a = mapId) (accounts db)))"
    using listAccountsByMapId_all [of "Some k" mapId db] by (simp add: limit_of_def)
next
  assume "\<forall>a \<in> set (accounts db0). a_map_id a \<noteq> mapId0"
  then show "listAccountsByMapId db0 mapId0 limit0 = []"
    by (rule listAccountsByMapId_empty)
qed

theorem listAccountsByMapId_binary_order_witness:
  "(0::int) \<le> 1
   \<and> length (listAccountsByMapId mixed_case_db 1 (Some 1)) \<le> nat 1
   \<and> sorted (map l_label (listAccountsByMapId mixed_case_db 1 (Some 1)))
   \<and> filter (\<lambda>a. a_map_id a = 2) (accounts mixed_case_db) = []
   \<and> listAccountsByMapId mixed_case_db 2 (Some 1) = []"
proof -
  have a: "(0::int) \<le> 1" by simp
  have b: "\<forall>a \<in> set (accounts mixed_case_db). a_map_id a \<noteq> 2"
    by (simp add: mixed_case_db_def)
  have c: "filter (\<lambda>a. a_map_id a = 2) (accounts mixed_case_db) = []"
    by (simp add: mixed_case_db_def one_map_db_def)
  from listAccountsByMapId_binary_order [of mixed_case_db 1 "Some 1" 1 mixed_case_db 2 "Some 1"] a b c
  show ?thesis by blast
qed

end
